theory Spec2Isabelle
  imports Main "HOL-Library.Word"
begin

section \<open>Machine state\<close>

text \<open>
  The header \<^verbatim>\<open>mbed-util/atomic_ops.h\<close> works on three pieces of machine
  state: the memory cells its pointer arguments designate, the local exclusive monitor
  of the load/store-exclusive instructions, and the one-bit PRIMASK register that masks
  interrupts. A pointer is an address; a cell holds one value of the type \<open>T\<close> the
  template is instantiated at (no access changes width), so memory is a map from
  addresses to values of that type. Two pointers can hold the same address.
\<close>

type_synonym addr = nat

record 'v machine =
  mem :: "addr \<Rightarrow> 'v"
  monitor :: "addr option"
  primask :: bool

section \<open>The intrinsics of cmsis-core\<close>

text \<open>
  Modelled from the spec: the intrinsics \<^verbatim>\<open>__LDREXB/H/W\<close>,
  \<^verbatim>\<open>__STREXB/H/W\<close> and \<^verbatim>\<open>__CLREX\<close> are declared in
  \<^verbatim>\<open>cmsis-core/core_generic.h\<close>, which is not among the sources. The load
  establishes an exclusive-access reservation on the address and reads the value under
  it; the conditional store succeeds (status 0) only if the reservation on that address
  is still valid and fails (status 1) otherwise, and gives the reservation up either way;
  \<^verbatim>\<open>__CLREX\<close> abandons the reservation.
\<close>

definition ldrex :: "addr \<Rightarrow> 'v machine \<Rightarrow> 'v \<times> 'v machine" where
  "ldrex ptr s = (mem s ptr, s\<lparr>monitor := Some ptr\<rparr>)"

definition strex :: "'v \<Rightarrow> addr \<Rightarrow> 'v machine \<Rightarrow> 32 word \<times> 'v machine" where
  "strex v ptr s =
     (if monitor s = Some ptr
      then (0, s\<lparr>mem := (mem s)(ptr := v), monitor := None\<rparr>)
      else (1, s\<lparr>monitor := None\<rparr>))"

definition LDREXB :: "addr \<Rightarrow> 8 word machine \<Rightarrow> 8 word \<times> 8 word machine" where
  "LDREXB ptr s = ldrex ptr s"

definition STREXB :: "8 word \<Rightarrow> addr \<Rightarrow> 8 word machine \<Rightarrow> 32 word \<times> 8 word machine" where
  "STREXB v ptr s = strex v ptr s"

definition LDREXH :: "addr \<Rightarrow> 16 word machine \<Rightarrow> 16 word \<times> 16 word machine" where
  "LDREXH ptr s = ldrex ptr s"

definition STREXH :: "16 word \<Rightarrow> addr \<Rightarrow> 16 word machine \<Rightarrow> 32 word \<times> 16 word machine" where
  "STREXH v ptr s = strex v ptr s"

definition LDREXW :: "addr \<Rightarrow> 32 word machine \<Rightarrow> 32 word \<times> 32 word machine" where
  "LDREXW ptr s = ldrex ptr s"

definition STREXW :: "32 word \<Rightarrow> addr \<Rightarrow> 32 word machine \<Rightarrow> 32 word \<times> 32 word machine" where
  "STREXW v ptr s = strex v ptr s"

definition CLREX :: "'v machine \<Rightarrow> 'v machine" where
  "CLREX s = s\<lparr>monitor := None\<rparr>"

text \<open>
  Modelled from the spec: \<^verbatim>\<open>__get_PRIMASK\<close>, \<^verbatim>\<open>__disable_irq\<close> and
  \<^verbatim>\<open>__enable_irq\<close> come from the same missing header. They are the
  enable-state query and the global interrupt disable and enable: PRIMASK reads as 1
  when interrupts are masked and as 0 when they are enabled.
\<close>

definition get_PRIMASK :: "'v machine \<Rightarrow> 32 word" where
  "get_PRIMASK s = (if primask s then 1 else 0)"

definition disable_irq :: "'v machine \<Rightarrow> 'v machine" where
  "disable_irq s = s\<lparr>primask := True\<rparr>"

definition enable_irq :: "'v machine \<Rightarrow> 'v machine" where
  "enable_irq s = s\<lparr>primask := False\<rparr>"

section \<open>Compare and set\<close>

text \<open>
  The three specialisations for ARMv7-M and above (\<^verbatim>\<open>__CORTEX_M >= 0x03\<close>).
  Each returns the boolean result and the machine state it leaves.
\<close>

definition atomic_cas_u8 :: "addr \<Rightarrow> addr \<Rightarrow> 8 word \<Rightarrow> 8 word machine \<Rightarrow> bool \<times> 8 word machine" where
  "atomic_cas_u8 ptr expectedCurrentValue desiredValue s =
     (let (currentValue, s1) = LDREXB ptr s in
      if currentValue \<noteq> mem s1 expectedCurrentValue then
        (False, CLREX (s1\<lparr>mem := (mem s1)(expectedCurrentValue := currentValue)\<rparr>))
      else
        (let (status, s2) = STREXB desiredValue ptr s1 in (status = 0, s2)))"

definition atomic_cas_u16 :: "addr \<Rightarrow> addr \<Rightarrow> 16 word \<Rightarrow> 16 word machine \<Rightarrow> bool \<times> 16 word machine" where
  "atomic_cas_u16 ptr expectedCurrentValue desiredValue s =
     (let (currentValue, s1) = LDREXH ptr s in
      if currentValue \<noteq> mem s1 expectedCurrentValue then
        (False, CLREX (s1\<lparr>mem := (mem s1)(expectedCurrentValue := currentValue)\<rparr>))
      else
        (let (status, s2) = STREXH desiredValue ptr s1 in (status = 0, s2)))"

definition atomic_cas_u32 :: "addr \<Rightarrow> addr \<Rightarrow> 32 word \<Rightarrow> 32 word machine \<Rightarrow> bool \<times> 32 word machine" where
  "atomic_cas_u32 ptr expectedCurrentValue desiredValue s =
     (let (currentValue, s1) = LDREXW ptr s in
      if currentValue \<noteq> mem s1 expectedCurrentValue then
        (False, CLREX (s1\<lparr>mem := (mem s1)(expectedCurrentValue := currentValue)\<rparr>))
      else
        (let (status, s2) = STREXW desiredValue ptr s1 in (status = 0, s2)))"

text \<open>
  The generic variant for Cortex-M0 (\<^verbatim>\<open>__CORTEX_M == 0x00\<close>), which blocks
  interrupts around a plain compare and store. \<open>T\<close> is any type with equality.
\<close>

definition atomic_cas_m0 :: "addr \<Rightarrow> addr \<Rightarrow> 'v \<Rightarrow> 'v machine \<Rightarrow> bool \<times> 'v machine" where
  "atomic_cas_m0 ptr expectedCurrentValue desiredValue s =
     (let previousPRIMASK = get_PRIMASK s;
          s1 = disable_irq s;
          currentValue = mem s1 ptr;
          (rc, s2) =
            (if currentValue = mem s1 expectedCurrentValue
             then (True, s1\<lparr>mem := (mem s1)(ptr := desiredValue)\<rparr>)
             else (False, s1\<lparr>mem := (mem s1)(expectedCurrentValue := currentValue)\<rparr>));
          s3 = (if previousPRIMASK = 0 then enable_irq s2 else s2)
      in (rc, s3))"

section \<open>Increment and decrement\<close>

text \<open>
  \<^verbatim>\<open>atomic_incr\<close> and \<^verbatim>\<open>atomic_decr\<close> call whichever
  \<^verbatim>\<open>atomic_cas\<close> the build selected, so the model takes it as the argument
  \<open>cas\<close>. The local variable \<^verbatim>\<open>oldValue\<close> has its address taken and is written
  through it by \<^verbatim>\<open>atomic_cas\<close>; it therefore lives in memory, at the address
  \<open>oldValue\<close> of its stack slot. \<open>T\<close> is an unsigned integer type of some width, whose
  \<open>+\<close> and \<open>-\<close> followed by the conversion back to \<open>T\<close> are those of machine words.
  The loop \<^verbatim>\<open>while (true)\<close> has no bound: not returning is the value \<open>None\<close>.
\<close>

type_synonym 'v cas = "addr \<Rightarrow> addr \<Rightarrow> 'v \<Rightarrow> 'v machine \<Rightarrow> bool \<times> 'v machine"

partial_function (option) atomic_incr_loop ::
  "'a::len word cas \<Rightarrow> addr \<Rightarrow> addr \<Rightarrow> 'a word \<Rightarrow> 'a word machine \<Rightarrow> ('a word \<times> 'a word machine) option"
where
  "atomic_incr_loop cas valuePtr oldValue delta s =
     (let newValue = mem s oldValue + delta;
          (rc, s') = cas valuePtr oldValue newValue s
      in if rc then Some (newValue, s')
         else atomic_incr_loop cas valuePtr oldValue delta s')"

declare atomic_incr_loop.simps [code]

definition atomic_incr ::
  "'a::len word cas \<Rightarrow> addr \<Rightarrow> addr \<Rightarrow> 'a word \<Rightarrow> 'a word machine \<Rightarrow> ('a word \<times> 'a word machine) option"
where
  "atomic_incr cas valuePtr oldValue delta s =
     atomic_incr_loop cas valuePtr oldValue delta (s\<lparr>mem := (mem s)(oldValue := mem s valuePtr)\<rparr>)"

partial_function (option) atomic_decr_loop ::
  "'a::len word cas \<Rightarrow> addr \<Rightarrow> addr \<Rightarrow> 'a word \<Rightarrow> 'a word machine \<Rightarrow> ('a word \<times> 'a word machine) option"
where
  "atomic_decr_loop cas valuePtr oldValue delta s =
     (let newValue = mem s oldValue - delta;
          (rc, s') = cas valuePtr oldValue newValue s
      in if rc then Some (newValue, s')
         else atomic_decr_loop cas valuePtr oldValue delta s')"

declare atomic_decr_loop.simps [code]

definition atomic_decr ::
  "'a::len word cas \<Rightarrow> addr \<Rightarrow> addr \<Rightarrow> 'a word \<Rightarrow> 'a word machine \<Rightarrow> ('a word \<times> 'a word machine) option"
where
  "atomic_decr cas valuePtr oldValue delta s =
     atomic_decr_loop cas valuePtr oldValue delta (s\<lparr>mem := (mem s)(oldValue := mem s valuePtr)\<rparr>)"

text \<open>
  The same two functions with their loop iterations counted. The counter \<open>n\<close> is not in
  the source: it holds the number of iterations that have ended, and the result carries
  the number of iterations the call ran. Forgetting the count gives
  \<^verbatim>\<open>atomic_incr\<close> and \<^verbatim>\<open>atomic_decr\<close> back (lemmas
  \<open>uncounted_atomic_incr\<close> and \<open>uncounted_atomic_decr\<close> below).
\<close>

partial_function (option) atomic_incr_loop_counted ::
  "'a::len word cas \<Rightarrow> addr \<Rightarrow> addr \<Rightarrow> 'a word \<Rightarrow> nat \<Rightarrow> 'a word machine
     \<Rightarrow> ('a word \<times> nat \<times> 'a word machine) option"
where
  "atomic_incr_loop_counted cas valuePtr oldValue delta n s =
     (let newValue = mem s oldValue + delta;
          (rc, s') = cas valuePtr oldValue newValue s
      in if rc then Some (newValue, Suc n, s')
         else atomic_incr_loop_counted cas valuePtr oldValue delta (Suc n) s')"

declare atomic_incr_loop_counted.simps [code]

definition atomic_incr_counted ::
  "'a::len word cas \<Rightarrow> addr \<Rightarrow> addr \<Rightarrow> 'a word \<Rightarrow> 'a word machine
     \<Rightarrow> ('a word \<times> nat \<times> 'a word machine) option"
where
  "atomic_incr_counted cas valuePtr oldValue delta s =
     atomic_incr_loop_counted cas valuePtr oldValue delta 0
       (s\<lparr>mem := (mem s)(oldValue := mem s valuePtr)\<rparr>)"

partial_function (option) atomic_decr_loop_counted ::
  "'a::len word cas \<Rightarrow> addr \<Rightarrow> addr \<Rightarrow> 'a word \<Rightarrow> nat \<Rightarrow> 'a word machine
     \<Rightarrow> ('a word \<times> nat \<times> 'a word machine) option"
where
  "atomic_decr_loop_counted cas valuePtr oldValue delta n s =
     (let newValue = mem s oldValue - delta;
          (rc, s') = cas valuePtr oldValue newValue s
      in if rc then Some (newValue, Suc n, s')
         else atomic_decr_loop_counted cas valuePtr oldValue delta (Suc n) s')"

declare atomic_decr_loop_counted.simps [code]

definition atomic_decr_counted ::
  "'a::len word cas \<Rightarrow> addr \<Rightarrow> addr \<Rightarrow> 'a word \<Rightarrow> 'a word machine
     \<Rightarrow> ('a word \<times> nat \<times> 'a word machine) option"
where
  "atomic_decr_counted cas valuePtr oldValue delta s =
     atomic_decr_loop_counted cas valuePtr oldValue delta 0
       (s\<lparr>mem := (mem s)(oldValue := mem s valuePtr)\<rparr>)"

section \<open>Preemption\<close>

text \<open>
  Modelled from the spec: the header runs on a single core, on which interrupt handlers
  may preempt ordinary code at instruction boundaries and run to their end before that
  code resumes. What the handlers that run at one boundary do is a function on the
  machine state; they run only while PRIMASK is clear.
\<close>

type_synonym 'v irq = "'v machine \<Rightarrow> 'v machine"

definition preempt :: "'v irq \<Rightarrow> 'v machine \<Rightarrow> 'v machine" where
  "preempt irq s = (if primask s then s else irq s)"

text \<open>
  The three specialisations again, line by line, with the boundary after the
  load-exclusive open to the handlers \<open>irq\<close>: this is the window in which the call holds a
  reservation that it has not yet used. With handlers that do nothing these are
  \<open>atomic_cas_u8\<close>, \<open>atomic_cas_u16\<close> and \<open>atomic_cas_u32\<close> (lemma
  \<open>atomic_cas_preempted_by_nothing\<close> below).
\<close>

definition atomic_cas_u8_preempted ::
  "8 word irq \<Rightarrow> addr \<Rightarrow> addr \<Rightarrow> 8 word \<Rightarrow> 8 word machine \<Rightarrow> bool \<times> 8 word machine"
where
  "atomic_cas_u8_preempted irq ptr expectedCurrentValue desiredValue s =
     (let (currentValue, s0) = LDREXB ptr s;
          s1 = preempt irq s0
      in if currentValue \<noteq> mem s1 expectedCurrentValue then
           (False, CLREX (s1\<lparr>mem := (mem s1)(expectedCurrentValue := currentValue)\<rparr>))
         else
           (let (status, s2) = STREXB desiredValue ptr s1 in (status = 0, s2)))"

definition atomic_cas_u16_preempted ::
  "16 word irq \<Rightarrow> addr \<Rightarrow> addr \<Rightarrow> 16 word \<Rightarrow> 16 word machine \<Rightarrow> bool \<times> 16 word machine"
where
  "atomic_cas_u16_preempted irq ptr expectedCurrentValue desiredValue s =
     (let (currentValue, s0) = LDREXH ptr s;
          s1 = preempt irq s0
      in if currentValue \<noteq> mem s1 expectedCurrentValue then
           (False, CLREX (s1\<lparr>mem := (mem s1)(expectedCurrentValue := currentValue)\<rparr>))
         else
           (let (status, s2) = STREXH desiredValue ptr s1 in (status = 0, s2)))"

definition atomic_cas_u32_preempted ::
  "32 word irq \<Rightarrow> addr \<Rightarrow> addr \<Rightarrow> 32 word \<Rightarrow> 32 word machine \<Rightarrow> bool \<times> 32 word machine"
where
  "atomic_cas_u32_preempted irq ptr expectedCurrentValue desiredValue s =
     (let (currentValue, s0) = LDREXW ptr s;
          s1 = preempt irq s0
      in if currentValue \<noteq> mem s1 expectedCurrentValue then
           (False, CLREX (s1\<lparr>mem := (mem s1)(expectedCurrentValue := currentValue)\<rparr>))
         else
           (let (status, s2) = STREXW desiredValue ptr s1 in (status = 0, s2)))"

text \<open>
  The generic variant with the boundary after its read of the cell open in the same way.
  The read comes after \<^verbatim>\<open>__disable_irq()\<close>, so the handlers never run there
  (lemma \<open>atomic_cas_m0_not_preempted\<close> below).
\<close>

definition atomic_cas_m0_preempted ::
  "'v irq \<Rightarrow> addr \<Rightarrow> addr \<Rightarrow> 'v \<Rightarrow> 'v machine \<Rightarrow> bool \<times> 'v machine"
where
  "atomic_cas_m0_preempted irq ptr expectedCurrentValue desiredValue s =
     (let previousPRIMASK = get_PRIMASK s;
          s0 = disable_irq s;
          currentValue = mem s0 ptr;
          s1 = preempt irq s0;
          (rc, s2) =
            (if currentValue = mem s1 expectedCurrentValue
             then (True, s1\<lparr>mem := (mem s1)(ptr := desiredValue)\<rparr>)
             else (False, s1\<lparr>mem := (mem s1)(expectedCurrentValue := currentValue)\<rparr>));
          s3 = (if previousPRIMASK = 0 then enable_irq s2 else s2)
      in (rc, s3))"

text \<open>
  Two handlers. The first calls \<^verbatim>\<open>atomic_cas\<close> once, on a cell and with an
  expected value of its own. The second serves an interrupt that is raised while the
  counter at \<open>c\<close> is not zero: it counts down and abandons the reservation it
  finds (\<^verbatim>\<open>__CLREX\<close>).
\<close>

definition agent_cas :: "'v cas \<Rightarrow> addr \<Rightarrow> addr \<Rightarrow> 'v \<Rightarrow> 'v irq" where
  "agent_cas cas ptr expectedCurrentValue desiredValue s =
     snd (cas ptr expectedCurrentValue desiredValue s)"

definition countdown_irq :: "addr \<Rightarrow> 'a::len word irq" where
  "countdown_irq c s =
     (if mem s c = 0 then s else CLREX (s\<lparr>mem := (mem s)(c := mem s c - 1)\<rparr>))"

text \<open>
  A third handler, which is the second stream of increments of a pair: it serves an
  interrupt that is raised while the counter at \<open>c\<close> is not zero, counts down and calls
  \<^verbatim>\<open>atomic_incr\<close> once, with a delta and a local \<^verbatim>\<open>oldValue\<close> of its
  own. The preempted code resumes when the handler has returned; a call that does not
  return is written out as leaving the state alone, and does not arise (lemma
  \<open>incr_irq_u8\<close> below).
\<close>

definition incr_irq :: "addr \<Rightarrow> 'a::len word cas \<Rightarrow> addr \<Rightarrow> addr \<Rightarrow> 'a word \<Rightarrow> 'a word irq" where
  "incr_irq c cas valuePtr oldValue delta s =
     (if mem s c = 0 then s
      else case atomic_incr cas valuePtr oldValue delta (s\<lparr>mem := (mem s)(c := mem s c - 1)\<rparr>) of
             None \<Rightarrow> s
           | Some (r, s') \<Rightarrow> s')"

section \<open>Observations\<close>

text \<open>
  What a caller can see of one \<^verbatim>\<open>atomic_cas\<close> call: the boolean it returns, the
  content of the cell afterwards, and the content of \<^verbatim>\<open>*expectedCurrentValue\<close>
  afterwards.
\<close>

definition observe :: "'v cas \<Rightarrow> addr \<Rightarrow> addr \<Rightarrow> 'v \<Rightarrow> 'v machine \<Rightarrow> bool \<times> 'v \<times> 'v" where
  "observe cas ptr expectedCurrentValue desiredValue s =
     (let (rc, s') = cas ptr expectedCurrentValue desiredValue s
      in (rc, mem s' ptr, mem s' expectedCurrentValue))"

text \<open>
  What a caller can see of a call that may not return: if it returns, the value returned
  and the content of the cell afterwards.
\<close>

definition returned :: "('r \<times> 'v machine) option \<Rightarrow> addr \<Rightarrow> ('r \<times> 'v) option" where
  "returned res ptr = map_option (\<lambda>(r, s'). (r, mem s' ptr)) res"

text \<open>
  \<open>n\<close> calls of \<^verbatim>\<open>atomic_incr\<close> on the same cell, one after the other, with the
  values they return in the order of the calls.
\<close>

fun atomic_incr_times ::
  "nat \<Rightarrow> 'a::len word cas \<Rightarrow> addr \<Rightarrow> addr \<Rightarrow> 'a word \<Rightarrow> 'a word machine \<Rightarrow> ('a word list \<times> 'a word machine) option"
where
  "atomic_incr_times 0 cas valuePtr oldValue delta s = Some ([], s)"
| "atomic_incr_times (Suc n) cas valuePtr oldValue delta s =
     (case atomic_incr cas valuePtr oldValue delta s of
        None \<Rightarrow> None
      | Some (r, s') \<Rightarrow>
          map_option (\<lambda>(rs, s''). (r # rs, s''))
            (atomic_incr_times n cas valuePtr oldValue delta s'))"

text \<open>A call of \<^verbatim>\<open>atomic_incr\<close> followed by a call of \<^verbatim>\<open>atomic_decr\<close>.\<close>

definition incr_then_decr ::
  "'a::len word cas \<Rightarrow> addr \<Rightarrow> addr \<Rightarrow> 'a word \<Rightarrow> 'a word machine \<Rightarrow> ('a word \<times> 'a word machine) option"
where
  "incr_then_decr cas valuePtr oldValue delta s =
     (case atomic_incr cas valuePtr oldValue delta s of
        None \<Rightarrow> None
      | Some (r, s') \<Rightarrow> atomic_decr cas valuePtr oldValue delta s')"

text \<open>The same observation as \<open>returned\<close>, with both words read as unsigned integers.\<close>

definition returned_uint ::
  "('a::len word \<times> 'a word machine) option \<Rightarrow> addr \<Rightarrow> (int \<times> int) option"
where
  "returned_uint res ptr = map_option (\<lambda>(r, s'). (uint r, uint (mem s' ptr))) res"

text \<open>Of a counted call: the call with the count forgotten, and the count alone.\<close>

definition uncounted :: "('r \<times> nat \<times> 'v machine) option \<Rightarrow> ('r \<times> 'v machine) option" where
  "uncounted res = map_option (\<lambda>(r, n, s'). (r, s')) res"

definition iterations :: "('r \<times> nat \<times> 'v machine) option \<Rightarrow> nat option" where
  "iterations res = map_option (\<lambda>(r, n, s'). n) res"

text \<open>
  What the retry loops need of the compare and set they call: on a state where the cell
  and the expected value agree it returns true and writes the desired value to the cell,
  on a state where they differ it returns false and writes the content of the cell to the
  expected value, and in both cases it writes nothing else to memory.
\<close>

definition serial_cas :: "'v cas \<Rightarrow> bool" where
  "serial_cas cas \<longleftrightarrow>
     (\<forall>p e w s.
        (mem s p = mem s e \<longrightarrow>
           fst (cas p e w s) \<and> mem (snd (cas p e w s)) = (mem s)(p := w)) \<and>
        (mem s p \<noteq> mem s e \<longrightarrow>
           \<not> fst (cas p e w s) \<and> mem (snd (cas p e w s)) = (mem s)(e := mem s p)))"

text \<open>
  A compare and set on the cell \<open>ptr\<close> with the expected value at \<open>ecv\<close> that may fail
  although the cell holds the expected value, as a store-exclusive does after the
  reservation was lost: when it returns true, the cell held the expected value and now
  holds the desired one; when it returns false, the cell is as it was and the expected
  value is the content of the cell.
\<close>

definition weak_cas :: "'v cas \<Rightarrow> addr \<Rightarrow> addr \<Rightarrow> bool" where
  "weak_cas cas ptr ecv \<longleftrightarrow>
     (\<forall>w s.
        (fst (cas ptr ecv w s) \<longrightarrow>
           mem s ptr = mem s ecv \<and> mem (snd (cas ptr ecv w s)) ptr = w) \<and>
        (\<not> fst (cas ptr ecv w s) \<longrightarrow>
           mem (snd (cas ptr ecv w s)) ptr = mem s ptr \<and>
           mem (snd (cas ptr ecv w s)) ecv = mem s ptr))"

text \<open>
  A bound on such failures: \<open>budget\<close> is a number read off the machine state that no call
  raises, that a call which fails although the cell holds the expected value lowers, and
  that does not depend on the content of \<open>ecv\<close>.
\<close>

definition retry_budget :: "('v machine \<Rightarrow> nat) \<Rightarrow> 'v cas \<Rightarrow> addr \<Rightarrow> addr \<Rightarrow> bool" where
  "retry_budget budget cas ptr ecv \<longleftrightarrow>
     (\<forall>x s. budget (s\<lparr>mem := (mem s)(ecv := x)\<rparr>) = budget s) \<and>
     (\<forall>w s. budget (snd (cas ptr ecv w s)) \<le> budget s \<and>
        (mem s ptr = mem s ecv \<and> \<not> fst (cas ptr ecv w s) \<longrightarrow>
           budget (snd (cas ptr ecv w s)) < budget s))"

section \<open>Two streams of increments\<close>

text \<open>
  Two agents call \<^verbatim>\<open>atomic_incr\<close> on the same cell again and again, each with
  its own delta and its own local \<^verbatim>\<open>oldValue\<close>, and are interleaved. A stream
  is at one of two places of \<^verbatim>\<open>atomic_incr\<close>: before the initial read
  \<^verbatim>\<open>T oldValue = *valuePtr\<close>, or at the head of the loop body. A step of a stream
  is the initial read, or one iteration of the loop: the candidate and one compare and
  set, which either ends the call or leaves the stream at the head of the loop (lemmas
  \<open>stream_step_is_initial_read\<close> and \<open>stream_step_is_iteration\<close> below). A schedule
  says which stream takes each step, \<open>True\<close> for the first.
\<close>

datatype pc = Reading | Trying

record 'v stream =
  st_slot :: addr
  st_delta :: 'v
  st_todo :: nat
  st_pc :: pc

definition stream_step ::
  "'a::len word cas \<Rightarrow> addr \<Rightarrow> 'a word stream \<Rightarrow> 'a word machine
     \<Rightarrow> 'a word stream \<times> 'a word machine"
where
  "stream_step cas valuePtr t s =
     (if st_todo t = 0 then (t, s)
      else case st_pc t of
        Reading \<Rightarrow> (t\<lparr>st_pc := Trying\<rparr>, s\<lparr>mem := (mem s)(st_slot t := mem s valuePtr)\<rparr>)
      | Trying \<Rightarrow>
          (let newValue = mem s (st_slot t) + st_delta t;
               (rc, s') = cas valuePtr (st_slot t) newValue s
           in if rc then (t\<lparr>st_todo := st_todo t - 1, st_pc := Reading\<rparr>, s')
              else (t, s')))"





section \<open>One call of compare and set\<close>

lemmas exclusive_defs =
  ldrex_def strex_def CLREX_def
  LDREXB_def STREXB_def LDREXH_def STREXH_def LDREXW_def STREXW_def

lemmas irq_defs = get_PRIMASK_def disable_irq_def enable_irq_def

text \<open>The conditional store fails when the reservation has been lost, and writes nothing.\<close>

lemma strex_without_reservation:
  "monitor s \<noteq> Some ptr \<Longrightarrow> strex v ptr s = (1, s\<lparr>monitor := None\<rparr>)"
  by (simp add: strex_def)

text \<open>Inside one call the store follows the load, so the reservation is still there.\<close>

lemma atomic_cas_u8_match:
  "mem s p = mem s e \<Longrightarrow>
     atomic_cas_u8 p e w s = (True, s\<lparr>mem := (mem s)(p := w), monitor := None\<rparr>)"
  by (simp add: atomic_cas_u8_def exclusive_defs)

lemma atomic_cas_u8_mismatch:
  "mem s p \<noteq> mem s e \<Longrightarrow>
     atomic_cas_u8 p e w s = (False, s\<lparr>mem := (mem s)(e := mem s p), monitor := None\<rparr>)"
  by (simp add: atomic_cas_u8_def exclusive_defs)

lemma atomic_cas_u16_match:
  "mem s p = mem s e \<Longrightarrow>
     atomic_cas_u16 p e w s = (True, s\<lparr>mem := (mem s)(p := w), monitor := None\<rparr>)"
  by (simp add: atomic_cas_u16_def exclusive_defs)

lemma atomic_cas_u16_mismatch:
  "mem s p \<noteq> mem s e \<Longrightarrow>
     atomic_cas_u16 p e w s = (False, s\<lparr>mem := (mem s)(e := mem s p), monitor := None\<rparr>)"
  by (simp add: atomic_cas_u16_def exclusive_defs)

lemma atomic_cas_u32_match:
  "mem s p = mem s e \<Longrightarrow>
     atomic_cas_u32 p e w s = (True, s\<lparr>mem := (mem s)(p := w), monitor := None\<rparr>)"
  by (simp add: atomic_cas_u32_def exclusive_defs)

lemma atomic_cas_u32_mismatch:
  "mem s p \<noteq> mem s e \<Longrightarrow>
     atomic_cas_u32 p e w s = (False, s\<lparr>mem := (mem s)(e := mem s p), monitor := None\<rparr>)"
  by (simp add: atomic_cas_u32_def exclusive_defs)

text \<open>The masking variant leaves everything but the one written cell as it found it.\<close>

lemma atomic_cas_m0_match:
  "mem s p = mem s e \<Longrightarrow> atomic_cas_m0 p e w s = (True, s\<lparr>mem := (mem s)(p := w)\<rparr>)"
  by (cases s) (simp add: atomic_cas_m0_def irq_defs)

lemma atomic_cas_m0_mismatch:
  "mem s p \<noteq> mem s e \<Longrightarrow>
     atomic_cas_m0 p e w s = (False, s\<lparr>mem := (mem s)(e := mem s p)\<rparr>)"
  by (cases s) (simp add: atomic_cas_m0_def irq_defs)

text \<open>
  A call returns true exactly when it found the expected value in the cell, whatever
  state it starts from.
\<close>

lemma atomic_cas_success_iff:
  "fst (atomic_cas_u8 p e w8 s8) \<longleftrightarrow> mem s8 p = mem s8 e"
  "fst (atomic_cas_u16 p e w16 s16) \<longleftrightarrow> mem s16 p = mem s16 e"
  "fst (atomic_cas_u32 p e w32 s32) \<longleftrightarrow> mem s32 p = mem s32 e"
  "fst (atomic_cas_m0 p e w s) \<longleftrightarrow> mem s p = mem s e"
proof -
  show "fst (atomic_cas_u8 p e w8 s8) \<longleftrightarrow> mem s8 p = mem s8 e"
    by (cases "mem s8 p = mem s8 e") (simp_all add: atomic_cas_u8_match atomic_cas_u8_mismatch)
  show "fst (atomic_cas_u16 p e w16 s16) \<longleftrightarrow> mem s16 p = mem s16 e"
    by (cases "mem s16 p = mem s16 e") (simp_all add: atomic_cas_u16_match atomic_cas_u16_mismatch)
  show "fst (atomic_cas_u32 p e w32 s32) \<longleftrightarrow> mem s32 p = mem s32 e"
    by (cases "mem s32 p = mem s32 e") (simp_all add: atomic_cas_u32_match atomic_cas_u32_mismatch)
  show "fst (atomic_cas_m0 p e w s) \<longleftrightarrow> mem s p = mem s e"
    by (cases "mem s p = mem s e") (simp_all add: atomic_cas_m0_match atomic_cas_m0_mismatch)
qed

lemmas cas_match =
  atomic_cas_u8_match atomic_cas_u16_match atomic_cas_u32_match atomic_cas_m0_match

lemmas cas_mismatch =
  atomic_cas_u8_mismatch atomic_cas_u16_mismatch atomic_cas_u32_mismatch atomic_cas_m0_mismatch

text \<open>
  The preempted specialisations: with handlers that do nothing, or with interrupts masked
  by the caller, they are the specialisations; the masking variant cannot be preempted
  between its read and its store at all.
\<close>

lemma atomic_cas_preempted_by_nothing:
  "atomic_cas_u8_preempted (\<lambda>s. s) ptr ecv w8 s8 = atomic_cas_u8 ptr ecv w8 s8"
  "atomic_cas_u16_preempted (\<lambda>s. s) ptr ecv w16 s16 = atomic_cas_u16 ptr ecv w16 s16"
  "atomic_cas_u32_preempted (\<lambda>s. s) ptr ecv w32 s32 = atomic_cas_u32 ptr ecv w32 s32"
  by (simp_all add: atomic_cas_u8_preempted_def atomic_cas_u8_def atomic_cas_u16_preempted_def
      atomic_cas_u16_def atomic_cas_u32_preempted_def atomic_cas_u32_def preempt_def Let_def
      split: prod.splits)

lemma atomic_cas_preempted_masked:
  "primask s8 \<Longrightarrow> atomic_cas_u8_preempted irq8 ptr ecv w8 s8 = atomic_cas_u8 ptr ecv w8 s8"
  "primask s16 \<Longrightarrow> atomic_cas_u16_preempted irq16 ptr ecv w16 s16 = atomic_cas_u16 ptr ecv w16 s16"
  "primask s32 \<Longrightarrow> atomic_cas_u32_preempted irq32 ptr ecv w32 s32 = atomic_cas_u32 ptr ecv w32 s32"
  by (simp_all add: atomic_cas_u8_preempted_def atomic_cas_u8_def atomic_cas_u16_preempted_def
      atomic_cas_u16_def atomic_cas_u32_preempted_def atomic_cas_u32_def preempt_def Let_def
      exclusive_defs split: prod.splits)

lemma atomic_cas_m0_not_preempted:
  "atomic_cas_m0_preempted irq ptr ecv w s = atomic_cas_m0 ptr ecv w s"
  by (simp add: atomic_cas_m0_preempted_def atomic_cas_m0_def preempt_def disable_irq_def Let_def)

text \<open>
  What a preempted call does, by the state \<open>s1\<close> the handlers leave: a mismatch returns
  false and writes the loaded value to the expected value; a match stores if the
  reservation is still there, and returns false with nothing written if it is not.
\<close>

lemma atomic_cas_u8_preempted_eq:
  "atomic_cas_u8_preempted irq p e w s =
     (let s1 = preempt irq (s\<lparr>monitor := Some p\<rparr>) in
      if mem s p \<noteq> mem s1 e then (False, s1\<lparr>mem := (mem s1)(e := mem s p), monitor := None\<rparr>)
      else if monitor s1 = Some p then (True, s1\<lparr>mem := (mem s1)(p := w), monitor := None\<rparr>)
      else (False, s1\<lparr>monitor := None\<rparr>))"
  by (simp add: atomic_cas_u8_preempted_def exclusive_defs Let_def)

lemma atomic_cas_u16_preempted_eq:
  "atomic_cas_u16_preempted irq p e w s =
     (let s1 = preempt irq (s\<lparr>monitor := Some p\<rparr>) in
      if mem s p \<noteq> mem s1 e then (False, s1\<lparr>mem := (mem s1)(e := mem s p), monitor := None\<rparr>)
      else if monitor s1 = Some p then (True, s1\<lparr>mem := (mem s1)(p := w), monitor := None\<rparr>)
      else (False, s1\<lparr>monitor := None\<rparr>))"
  by (simp add: atomic_cas_u16_preempted_def exclusive_defs Let_def)

lemma atomic_cas_u32_preempted_eq:
  "atomic_cas_u32_preempted irq p e w s =
     (let s1 = preempt irq (s\<lparr>monitor := Some p\<rparr>) in
      if mem s p \<noteq> mem s1 e then (False, s1\<lparr>mem := (mem s1)(e := mem s p), monitor := None\<rparr>)
      else if monitor s1 = Some p then (True, s1\<lparr>mem := (mem s1)(p := w), monitor := None\<rparr>)
      else (False, s1\<lparr>monitor := None\<rparr>))"
  by (simp add: atomic_cas_u32_preempted_def exclusive_defs Let_def)

text \<open>
  C1. Serial success. When the cell and \<^verbatim>\<open>*expectedCurrentValue\<close> (a location of
  the caller's, other than the cell) both hold \<open>v\<close>, the call returns true, the cell
  holds the desired value afterwards and \<^verbatim>\<open>*expectedCurrentValue\<close> still holds
  \<open>v\<close>. This is so at each of the widths 8, 16 and 32 of the exclusive-monitor
  specialisations and for the generic interrupt-masking variant.
\<close>

theorem atomic_cas_serial_success:
  assumes "ptr \<noteq> ecv"
  shows
    "(mem s8 ptr = v8 \<and> mem s8 ecv = v8 \<longrightarrow>
        observe atomic_cas_u8 ptr ecv w8 s8 = (True, w8, v8)) \<and>
     (mem s16 ptr = v16 \<and> mem s16 ecv = v16 \<longrightarrow>
        observe atomic_cas_u16 ptr ecv w16 s16 = (True, w16, v16)) \<and>
     (mem s32 ptr = v32 \<and> mem s32 ecv = v32 \<longrightarrow>
        observe atomic_cas_u32 ptr ecv w32 s32 = (True, w32, v32)) \<and>
     (mem s ptr = v \<and> mem s ecv = v \<longrightarrow>
        observe atomic_cas_m0 ptr ecv w s = (True, w, v))"
proof (intro conjI impI)
  assume "mem s8 ptr = v8 \<and> mem s8 ecv = v8"
  with assms show "observe atomic_cas_u8 ptr ecv w8 s8 = (True, w8, v8)"
    by (simp add: observe_def atomic_cas_u8_match)
next
  assume "mem s16 ptr = v16 \<and> mem s16 ecv = v16"
  with assms show "observe atomic_cas_u16 ptr ecv w16 s16 = (True, w16, v16)"
    by (simp add: observe_def atomic_cas_u16_match)
next
  assume "mem s32 ptr = v32 \<and> mem s32 ecv = v32"
  with assms show "observe atomic_cas_u32 ptr ecv w32 s32 = (True, w32, v32)"
    by (simp add: observe_def atomic_cas_u32_match)
next
  assume "mem s ptr = v \<and> mem s ecv = v"
  with assms show "observe atomic_cas_m0 ptr ecv w s = (True, w, v)"
    by (simp add: observe_def atomic_cas_m0_match)
qed

theorem atomic_cas_serial_success_witness:
  "observe atomic_cas_u8 0 1 9 \<lparr>mem = (\<lambda>a. 5), monitor = None, primask = False\<rparr> = (True, 9, 5) \<and>
   observe atomic_cas_u16 0 1 9 \<lparr>mem = (\<lambda>a. 5), monitor = Some 7, primask = True\<rparr> = (True, 9, 5) \<and>
   observe atomic_cas_u32 0 1 9 \<lparr>mem = (\<lambda>a. 5), monitor = None, primask = False\<rparr> = (True, 9, 5) \<and>
   observe atomic_cas_m0 0 1 (9 :: 64 word) \<lparr>mem = (\<lambda>a. 5), monitor = None, primask = True\<rparr>
     = (True, 9, 5)"
  using atomic_cas_serial_success
    [where ptr = 0 and ecv = 1
       and ?s8.0 = "\<lparr>mem = (\<lambda>a. 5), monitor = None, primask = False\<rparr>" and ?v8.0 = 5 and ?w8.0 = 9
       and ?s16.0 = "\<lparr>mem = (\<lambda>a. 5), monitor = Some 7, primask = True\<rparr>" and ?v16.0 = 5 and ?w16.0 = 9
       and ?s32.0 = "\<lparr>mem = (\<lambda>a. 5), monitor = None, primask = False\<rparr>" and ?v32.0 = 5 and ?w32.0 = 9
       and s = "\<lparr>mem = (\<lambda>a. 5), monitor = None, primask = True\<rparr>" and v = 5 and w = "9 :: 64 word"]
  by simp

text \<open>
  A call that nothing preempts returns false only on a mismatch. When the cell holds
  \<open>v\<close> and \<^verbatim>\<open>*expectedCurrentValue\<close> holds some \<open>u \<noteq> v\<close>, it returns false, the
  cell still holds \<open>v\<close>, and \<^verbatim>\<open>*expectedCurrentValue\<close> has been overwritten with
  \<open>v\<close>; and whenever it returns false, \<^verbatim>\<open>*expectedCurrentValue\<close> afterwards
  equals the content of the cell.
\<close>

lemma atomic_cas_failure_unpreempted:
  "(mem s8 ptr = v8 \<and> mem s8 ecv = u8 \<and> u8 \<noteq> v8 \<longrightarrow>
      observe atomic_cas_u8 ptr ecv w8 s8 = (False, v8, v8)) \<and>
   (case observe atomic_cas_u8 ptr ecv w8 s8 of
      (rc, cell, expected) \<Rightarrow> \<not> rc \<longrightarrow> expected = cell \<and> cell = mem s8 ptr) \<and>
   (mem s16 ptr = v16 \<and> mem s16 ecv = u16 \<and> u16 \<noteq> v16 \<longrightarrow>
      observe atomic_cas_u16 ptr ecv w16 s16 = (False, v16, v16)) \<and>
   (case observe atomic_cas_u16 ptr ecv w16 s16 of
      (rc, cell, expected) \<Rightarrow> \<not> rc \<longrightarrow> expected = cell \<and> cell = mem s16 ptr) \<and>
   (mem s32 ptr = v32 \<and> mem s32 ecv = u32 \<and> u32 \<noteq> v32 \<longrightarrow>
      observe atomic_cas_u32 ptr ecv w32 s32 = (False, v32, v32)) \<and>
   (case observe atomic_cas_u32 ptr ecv w32 s32 of
      (rc, cell, expected) \<Rightarrow> \<not> rc \<longrightarrow> expected = cell \<and> cell = mem s32 ptr) \<and>
   (mem s ptr = v \<and> mem s ecv = u \<and> u \<noteq> v \<longrightarrow>
      observe atomic_cas_m0 ptr ecv w s = (False, v, v)) \<and>
   (case observe atomic_cas_m0 ptr ecv w s of
      (rc, cell, expected) \<Rightarrow> \<not> rc \<longrightarrow> expected = cell \<and> cell = mem s ptr)"
proof -
  have mis8: "observe atomic_cas_u8 ptr ecv w8 s8 = (False, mem s8 ptr, mem s8 ptr)"
    if "mem s8 ptr \<noteq> mem s8 ecv"
    using that by (auto simp: observe_def atomic_cas_u8_mismatch)
  have mis16: "observe atomic_cas_u16 ptr ecv w16 s16 = (False, mem s16 ptr, mem s16 ptr)"
    if "mem s16 ptr \<noteq> mem s16 ecv"
    using that by (auto simp: observe_def atomic_cas_u16_mismatch)
  have mis32: "observe atomic_cas_u32 ptr ecv w32 s32 = (False, mem s32 ptr, mem s32 ptr)"
    if "mem s32 ptr \<noteq> mem s32 ecv"
    using that by (auto simp: observe_def atomic_cas_u32_mismatch)
  have mis: "observe atomic_cas_m0 ptr ecv w s = (False, mem s ptr, mem s ptr)"
    if "mem s ptr \<noteq> mem s ecv"
    using that by (auto simp: observe_def atomic_cas_m0_mismatch)
  have ok8: "fst (observe atomic_cas_u8 ptr ecv w8 s8)" if "mem s8 ptr = mem s8 ecv"
    using that by (simp add: observe_def atomic_cas_u8_match)
  have ok16: "fst (observe atomic_cas_u16 ptr ecv w16 s16)" if "mem s16 ptr = mem s16 ecv"
    using that by (simp add: observe_def atomic_cas_u16_match)
  have ok32: "fst (observe atomic_cas_u32 ptr ecv w32 s32)" if "mem s32 ptr = mem s32 ecv"
    using that by (simp add: observe_def atomic_cas_u32_match)
  have ok: "fst (observe atomic_cas_m0 ptr ecv w s)" if "mem s ptr = mem s ecv"
    using that by (simp add: observe_def atomic_cas_m0_match)
  have a8: "case observe atomic_cas_u8 ptr ecv w8 s8 of
      (rc, cell, expected) \<Rightarrow> \<not> rc \<longrightarrow> expected = cell \<and> cell = mem s8 ptr"
    using mis8 ok8 by (cases "mem s8 ptr = mem s8 ecv") (auto split: prod.splits)
  have a16: "case observe atomic_cas_u16 ptr ecv w16 s16 of
      (rc, cell, expected) \<Rightarrow> \<not> rc \<longrightarrow> expected = cell \<and> cell = mem s16 ptr"
    using mis16 ok16 by (cases "mem s16 ptr = mem s16 ecv") (auto split: prod.splits)
  have a32: "case observe atomic_cas_u32 ptr ecv w32 s32 of
      (rc, cell, expected) \<Rightarrow> \<not> rc \<longrightarrow> expected = cell \<and> cell = mem s32 ptr"
    using mis32 ok32 by (cases "mem s32 ptr = mem s32 ecv") (auto split: prod.splits)
  have a: "case observe atomic_cas_m0 ptr ecv w s of
      (rc, cell, expected) \<Rightarrow> \<not> rc \<longrightarrow> expected = cell \<and> cell = mem s ptr"
    using mis ok by (cases "mem s ptr = mem s ecv") (auto split: prod.splits)
  show ?thesis
    using mis8 mis16 mis32 mis a8 a16 a32 a by (intro conjI impI) auto
qed

text \<open>
  The masking variant keeps this under preemption: every call of it that returns false
  leaves the content of the cell in \<^verbatim>\<open>*expectedCurrentValue\<close>.
\<close>

lemma atomic_cas_m0_false_refreshes:
  "case observe (atomic_cas_m0_preempted irq) ptr ecv w s of
     (rc, cell, expected) \<Rightarrow> \<not> rc \<longrightarrow> expected = cell \<and> cell = mem s ptr"
proof (cases "mem s ptr = mem s ecv")
  case True
  then show ?thesis
    by (simp add: observe_def atomic_cas_m0_not_preempted atomic_cas_m0_match)
next
  case False
  then show ?thesis
    by (auto simp: observe_def atomic_cas_m0_not_preempted atomic_cas_m0_mismatch)
qed

text \<open>
  C2. Failure. The claim is that every call which returns false leaves
  \<^verbatim>\<open>*expectedCurrentValue\<close> equal to the content of the cell, as the comment in
  the header says of the failure case. The exclusive-monitor specialisations do not do
  so when their reservation is lost. Here the cell and \<^verbatim>\<open>*expectedCurrentValue\<close>
  (at the addresses 0 and 1) both hold 5, the desired value is 9 and interrupts are
  enabled; between the load-exclusive and the store-exclusive a handler sets the cell
  from 5 to 7 with \<^verbatim>\<open>atomic_cas\<close>. The store-exclusive of the preempted call
  fails: the call returns false, the cell holds 7 and \<^verbatim>\<open>*expectedCurrentValue\<close>
  still holds 5.
\<close>

theorem atomic_cas_false_without_refresh:
  "observe (atomic_cas_u8_preempted (agent_cas atomic_cas_u8 0 2 7)) 0 1 9
     \<lparr>mem = (\<lambda>a. 5), monitor = None, primask = False\<rparr> = (False, 7, 5) \<and>
   observe (atomic_cas_u16_preempted (agent_cas atomic_cas_u16 0 2 7)) 0 1 9
     \<lparr>mem = (\<lambda>a. 5), monitor = None, primask = False\<rparr> = (False, 7, 5) \<and>
   observe (atomic_cas_u32_preempted (agent_cas atomic_cas_u32 0 2 7)) 0 1 9
     \<lparr>mem = (\<lambda>a. 5), monitor = None, primask = False\<rparr> = (False, 7, 5)"
  by code_simp

text \<open>
  C4. The two realisations agree as long as the exclusive-monitor call keeps its
  reservation. At each width both have (8, 16 and 32 bits), from the same state and with
  the same arguments, an exclusive-monitor call that nothing preempts between its
  load-exclusive and its store-exclusive and the interrupt-masking call return the same
  boolean and leave the same content in the cell and in
  \<^verbatim>\<open>*expectedCurrentValue\<close>; indeed they leave the same memory and the same
  interrupt mask. When the cell holds the expected value and handlers take the
  reservation away in between without writing to memory, the exclusive-monitor call
  returns false and leaves the cell and \<^verbatim>\<open>*expectedCurrentValue\<close> as they
  were, where the interrupt-masking call, with the same handlers pending, returns true
  and stores the desired value.
\<close>

theorem atomic_cas_realisations_agree:
  "observe atomic_cas_u8 ptr ecv w8 s8 = observe atomic_cas_m0 ptr ecv w8 s8 \<and>
   mem (snd (atomic_cas_u8 ptr ecv w8 s8)) = mem (snd (atomic_cas_m0 ptr ecv w8 s8)) \<and>
   primask (snd (atomic_cas_u8 ptr ecv w8 s8)) = primask (snd (atomic_cas_m0 ptr ecv w8 s8)) \<and>
   observe atomic_cas_u16 ptr ecv w16 s16 = observe atomic_cas_m0 ptr ecv w16 s16 \<and>
   mem (snd (atomic_cas_u16 ptr ecv w16 s16)) = mem (snd (atomic_cas_m0 ptr ecv w16 s16)) \<and>
   primask (snd (atomic_cas_u16 ptr ecv w16 s16)) = primask (snd (atomic_cas_m0 ptr ecv w16 s16)) \<and>
   observe atomic_cas_u32 ptr ecv w32 s32 = observe atomic_cas_m0 ptr ecv w32 s32 \<and>
   mem (snd (atomic_cas_u32 ptr ecv w32 s32)) = mem (snd (atomic_cas_m0 ptr ecv w32 s32)) \<and>
   primask (snd (atomic_cas_u32 ptr ecv w32 s32)) = primask (snd (atomic_cas_m0 ptr ecv w32 s32)) \<and>
   (mem s8 ptr = mem s8 ecv \<and>
    mem (preempt irq8 (snd (LDREXB ptr s8))) = mem s8 \<and>
    monitor (preempt irq8 (snd (LDREXB ptr s8))) \<noteq> Some ptr \<longrightarrow>
      observe (atomic_cas_u8_preempted irq8) ptr ecv w8 s8 = (False, mem s8 ptr, mem s8 ecv) \<and>
      fst (atomic_cas_m0_preempted irq8 ptr ecv w8 s8) \<and>
      mem (snd (atomic_cas_m0_preempted irq8 ptr ecv w8 s8)) ptr = w8) \<and>
   (mem s16 ptr = mem s16 ecv \<and>
    mem (preempt irq16 (snd (LDREXH ptr s16))) = mem s16 \<and>
    monitor (preempt irq16 (snd (LDREXH ptr s16))) \<noteq> Some ptr \<longrightarrow>
      observe (atomic_cas_u16_preempted irq16) ptr ecv w16 s16 = (False, mem s16 ptr, mem s16 ecv) \<and>
      fst (atomic_cas_m0_preempted irq16 ptr ecv w16 s16) \<and>
      mem (snd (atomic_cas_m0_preempted irq16 ptr ecv w16 s16)) ptr = w16) \<and>
   (mem s32 ptr = mem s32 ecv \<and>
    mem (preempt irq32 (snd (LDREXW ptr s32))) = mem s32 \<and>
    monitor (preempt irq32 (snd (LDREXW ptr s32))) \<noteq> Some ptr \<longrightarrow>
      observe (atomic_cas_u32_preempted irq32) ptr ecv w32 s32 = (False, mem s32 ptr, mem s32 ecv) \<and>
      fst (atomic_cas_m0_preempted irq32 ptr ecv w32 s32) \<and>
      mem (snd (atomic_cas_m0_preempted irq32 ptr ecv w32 s32)) ptr = w32)"
proof -
  have u8: "atomic_cas_u8 ptr ecv w8 s8 =
      (fst (atomic_cas_m0 ptr ecv w8 s8), (snd (atomic_cas_m0 ptr ecv w8 s8))\<lparr>monitor := None\<rparr>)"
    by (cases "mem s8 ptr = mem s8 ecv") (simp_all add: cas_match cas_mismatch)
  have u16: "atomic_cas_u16 ptr ecv w16 s16 =
      (fst (atomic_cas_m0 ptr ecv w16 s16), (snd (atomic_cas_m0 ptr ecv w16 s16))\<lparr>monitor := None\<rparr>)"
    by (cases "mem s16 ptr = mem s16 ecv") (simp_all add: cas_match cas_mismatch)
  have u32: "atomic_cas_u32 ptr ecv w32 s32 =
      (fst (atomic_cas_m0 ptr ecv w32 s32), (snd (atomic_cas_m0 ptr ecv w32 s32))\<lparr>monitor := None\<rparr>)"
    by (cases "mem s32 ptr = mem s32 ecv") (simp_all add: cas_match cas_mismatch)
  have agree: "observe atomic_cas_u8 ptr ecv w8 s8 = observe atomic_cas_m0 ptr ecv w8 s8 \<and>
   mem (snd (atomic_cas_u8 ptr ecv w8 s8)) = mem (snd (atomic_cas_m0 ptr ecv w8 s8)) \<and>
   primask (snd (atomic_cas_u8 ptr ecv w8 s8)) = primask (snd (atomic_cas_m0 ptr ecv w8 s8)) \<and>
   observe atomic_cas_u16 ptr ecv w16 s16 = observe atomic_cas_m0 ptr ecv w16 s16 \<and>
   mem (snd (atomic_cas_u16 ptr ecv w16 s16)) = mem (snd (atomic_cas_m0 ptr ecv w16 s16)) \<and>
   primask (snd (atomic_cas_u16 ptr ecv w16 s16)) = primask (snd (atomic_cas_m0 ptr ecv w16 s16)) \<and>
   observe atomic_cas_u32 ptr ecv w32 s32 = observe atomic_cas_m0 ptr ecv w32 s32 \<and>
   mem (snd (atomic_cas_u32 ptr ecv w32 s32)) = mem (snd (atomic_cas_m0 ptr ecv w32 s32)) \<and>
   primask (snd (atomic_cas_u32 ptr ecv w32 s32)) = primask (snd (atomic_cas_m0 ptr ecv w32 s32))"
    by (simp add: observe_def u8 u16 u32 split: prod.splits)
  have l8: "observe (atomic_cas_u8_preempted irq8) ptr ecv w8 s8 = (False, mem s8 ptr, mem s8 ecv) \<and>
      fst (atomic_cas_m0_preempted irq8 ptr ecv w8 s8) \<and>
      mem (snd (atomic_cas_m0_preempted irq8 ptr ecv w8 s8)) ptr = w8"
    if "mem s8 ptr = mem s8 ecv \<and> mem (preempt irq8 (snd (LDREXB ptr s8))) = mem s8 \<and>
        monitor (preempt irq8 (snd (LDREXB ptr s8))) \<noteq> Some ptr"
    using that
    by (simp add: observe_def atomic_cas_u8_preempted_eq atomic_cas_m0_not_preempted atomic_cas_m0_match
        exclusive_defs Let_def)
  have l16: "observe (atomic_cas_u16_preempted irq16) ptr ecv w16 s16 = (False, mem s16 ptr, mem s16 ecv) \<and>
      fst (atomic_cas_m0_preempted irq16 ptr ecv w16 s16) \<and>
      mem (snd (atomic_cas_m0_preempted irq16 ptr ecv w16 s16)) ptr = w16"
    if "mem s16 ptr = mem s16 ecv \<and> mem (preempt irq16 (snd (LDREXH ptr s16))) = mem s16 \<and>
        monitor (preempt irq16 (snd (LDREXH ptr s16))) \<noteq> Some ptr"
    using that
    by (simp add: observe_def atomic_cas_u16_preempted_eq atomic_cas_m0_not_preempted atomic_cas_m0_match
        exclusive_defs Let_def)
  have l32: "observe (atomic_cas_u32_preempted irq32) ptr ecv w32 s32 = (False, mem s32 ptr, mem s32 ecv) \<and>
      fst (atomic_cas_m0_preempted irq32 ptr ecv w32 s32) \<and>
      mem (snd (atomic_cas_m0_preempted irq32 ptr ecv w32 s32)) ptr = w32"
    if "mem s32 ptr = mem s32 ecv \<and> mem (preempt irq32 (snd (LDREXW ptr s32))) = mem s32 \<and>
        monitor (preempt irq32 (snd (LDREXW ptr s32))) \<noteq> Some ptr"
    using that
    by (simp add: observe_def atomic_cas_u32_preempted_eq atomic_cas_m0_not_preempted atomic_cas_m0_match
        exclusive_defs Let_def)
  from agree l8 l16 l32 show ?thesis by blast
qed

theorem atomic_cas_realisations_agree_witness:
  "observe (atomic_cas_u8_preempted CLREX) 0 1 9
     \<lparr>mem = (\<lambda>a. 5), monitor = None, primask = False\<rparr> = (False, 5, 5) \<and>
   fst (atomic_cas_m0_preempted CLREX 0 1 (9 :: 8 word)
     \<lparr>mem = (\<lambda>a. 5), monitor = None, primask = False\<rparr>) \<and>
   observe (atomic_cas_u16_preempted CLREX) 0 1 9
     \<lparr>mem = (\<lambda>a. 5), monitor = None, primask = False\<rparr> = (False, 5, 5) \<and>
   fst (atomic_cas_m0_preempted CLREX 0 1 (9 :: 16 word)
     \<lparr>mem = (\<lambda>a. 5), monitor = None, primask = False\<rparr>) \<and>
   observe (atomic_cas_u32_preempted CLREX) 0 1 9
     \<lparr>mem = (\<lambda>a. 5), monitor = None, primask = False\<rparr> = (False, 5, 5) \<and>
   fst (atomic_cas_m0_preempted CLREX 0 1 (9 :: 32 word)
     \<lparr>mem = (\<lambda>a. 5), monitor = None, primask = False\<rparr>)"
  using atomic_cas_realisations_agree
    [where ptr = 0 and ecv = 1
       and ?s8.0 = "\<lparr>mem = (\<lambda>a. 5), monitor = None, primask = False\<rparr>" and ?w8.0 = 9 and ?irq8.0 = CLREX
       and ?s16.0 = "\<lparr>mem = (\<lambda>a. 5), monitor = None, primask = False\<rparr>" and ?w16.0 = 9 and ?irq16.0 = CLREX
       and ?s32.0 = "\<lparr>mem = (\<lambda>a. 5), monitor = None, primask = False\<rparr>" and ?w32.0 = 9 and ?irq32.0 = CLREX]
  by (simp add: preempt_def exclusive_defs atomic_cas_m0_not_preempted)

text \<open>
  The two realisations differ: with the cell and \<^verbatim>\<open>*expectedCurrentValue\<close>
  both at 5, the desired value 9 and a handler pending that abandons the reservation,
  the exclusive-monitor call returns false and stores nothing, and the
  interrupt-masking call returns true and stores 9.
\<close>

theorem atomic_cas_realisations_differ:
  "observe (atomic_cas_u8_preempted CLREX) 0 1 9
     \<lparr>mem = (\<lambda>a. 5), monitor = None, primask = False\<rparr> = (False, 5, 5) \<and>
   observe (atomic_cas_m0_preempted CLREX) 0 1 (9 :: 8 word)
     \<lparr>mem = (\<lambda>a. 5), monitor = None, primask = False\<rparr> = (True, 9, 5)"
  by code_simp

text \<open>
  C5. The interrupt mask is preserved. After a call of the interrupt-masking variant,
  PRIMASK is what it was before the call: interrupts that were enabled are enabled
  again, and interrupts that were disabled stay disabled.
\<close>

theorem atomic_cas_m0_preserves_primask:
  "primask (snd (atomic_cas_m0 ptr ecv w s)) = primask s"
proof (cases "primask s")
  case True
  then have "get_PRIMASK s = 1" by (simp add: get_PRIMASK_def)
  then show ?thesis
    using True by (simp add: atomic_cas_m0_def disable_irq_def Let_def)
next
  case False
  then have "get_PRIMASK s = 0" by (simp add: get_PRIMASK_def)
  then show ?thesis
    using False by (simp add: atomic_cas_m0_def disable_irq_def enable_irq_def Let_def)
qed

section \<open>The retry loops without interference\<close>

text \<open>Each of the four variants meets what the loops need.\<close>

lemma serial_cas_u8: "serial_cas atomic_cas_u8"
  by (simp add: serial_cas_def atomic_cas_u8_match atomic_cas_u8_mismatch)

lemma serial_cas_u16: "serial_cas atomic_cas_u16"
  by (simp add: serial_cas_def atomic_cas_u16_match atomic_cas_u16_mismatch)

lemma serial_cas_u32: "serial_cas atomic_cas_u32"
  by (simp add: serial_cas_def atomic_cas_u32_match atomic_cas_u32_mismatch)

lemma serial_cas_m0: "serial_cas atomic_cas_m0"
  by (simp add: serial_cas_def atomic_cas_m0_match atomic_cas_m0_mismatch)

lemmas serial_cas_all = serial_cas_u8 serial_cas_u16 serial_cas_u32 serial_cas_m0

lemma atomic_incr_loop_first:
  assumes "fst (cas p old (mem s old + d) s)"
  shows "atomic_incr_loop cas p old d s = Some (mem s old + d, snd (cas p old (mem s old + d) s))"
  using assms by (subst atomic_incr_loop.simps) (auto simp: Let_def split: prod.splits)

lemma atomic_decr_loop_first:
  assumes "fst (cas p old (mem s old - d) s)"
  shows "atomic_decr_loop cas p old d s = Some (mem s old - d, snd (cas p old (mem s old - d) s))"
  using assms by (subst atomic_decr_loop.simps) (auto simp: Let_def split: prod.splits)

lemma serial_cas_entry:
  assumes "serial_cas cas"
  shows "fst (cas p old w (s\<lparr>mem := (mem s)(old := mem s p)\<rparr>))"
    and "mem (snd (cas p old w (s\<lparr>mem := (mem s)(old := mem s p)\<rparr>)))
           = (mem s)(old := mem s p, p := w)"
proof -
  let ?s0 = "s\<lparr>mem := (mem s)(old := mem s p)\<rparr>"
  have "mem ?s0 p = mem ?s0 old" by simp
  with assms have "fst (cas p old w ?s0) \<and> mem (snd (cas p old w ?s0)) = (mem ?s0)(p := w)"
    unfolding serial_cas_def by blast
  then show "fst (cas p old w ?s0)"
    and "mem (snd (cas p old w ?s0)) = (mem s)(old := mem s p, p := w)"
    by simp_all
qed

lemma atomic_incr_serial:
  assumes "serial_cas cas"
  shows "atomic_incr cas p old d s =
          Some (mem s p + d, snd (cas p old (mem s p + d) (s\<lparr>mem := (mem s)(old := mem s p)\<rparr>)))"
  using serial_cas_entry(1)[OF assms, where p = p and old = old and s = s and w = "mem s p + d"]
    atomic_incr_loop_first[of cas p old "s\<lparr>mem := (mem s)(old := mem s p)\<rparr>" d]
  by (simp add: atomic_incr_def)

lemma atomic_decr_serial:
  assumes "serial_cas cas"
  shows "atomic_decr cas p old d s =
          Some (mem s p - d, snd (cas p old (mem s p - d) (s\<lparr>mem := (mem s)(old := mem s p)\<rparr>)))"
  using serial_cas_entry(1)[OF assms, where p = p and old = old and s = s and w = "mem s p - d"]
    atomic_decr_loop_first[of cas p old "s\<lparr>mem := (mem s)(old := mem s p)\<rparr>" d]
  by (simp add: atomic_decr_def)

lemma returned_incr_serial:
  assumes "serial_cas cas"
  shows "returned (atomic_incr cas p old d s) p = Some (mem s p + d, mem s p + d)"
  by (simp add: returned_def atomic_incr_serial[OF assms] serial_cas_entry(2)[OF assms])

lemma returned_decr_serial:
  assumes "serial_cas cas"
  shows "returned (atomic_decr cas p old d s) p = Some (mem s p - d, mem s p - d)"
  by (simp add: returned_def atomic_decr_serial[OF assms] serial_cas_entry(2)[OF assms])

lemma returned_uint_incr_serial:
  fixes d :: "'a::len word"
  assumes "serial_cas cas"
  shows "returned_uint (atomic_incr cas p old d s) p =
           Some ((uint (mem s p) + uint d) mod 2 ^ LENGTH('a), (uint (mem s p) + uint d) mod 2 ^ LENGTH('a))"
  by (simp add: returned_uint_def atomic_incr_serial[OF assms] serial_cas_entry(2)[OF assms]
      uint_word_ariths)

lemma returned_uint_decr_serial:
  fixes d :: "'a::len word"
  assumes "serial_cas cas"
  shows "returned_uint (atomic_decr cas p old d s) p =
           Some ((uint (mem s p) - uint d) mod 2 ^ LENGTH('a), (uint (mem s p) - uint d) mod 2 ^ LENGTH('a))"
  by (simp add: returned_uint_def atomic_decr_serial[OF assms] serial_cas_entry(2)[OF assms]
      uint_word_ariths)

lemma incr_then_decr_serial:
  assumes "serial_cas cas"
  shows "returned (incr_then_decr cas p old d s) p = Some (mem s p, mem s p)"
proof -
  let ?s1 = "snd (cas p old (mem s p + d) (s\<lparr>mem := (mem s)(old := mem s p)\<rparr>))"
  have 1: "atomic_incr cas p old d s = Some (mem s p + d, ?s1)"
    by (rule atomic_incr_serial[OF assms])
  have m1: "mem ?s1 p = mem s p + d"
    by (simp add: serial_cas_entry(2)[OF assms])
  have "returned (atomic_decr cas p old d ?s1) p = Some (mem ?s1 p - d, mem ?s1 p - d)"
    by (rule returned_decr_serial[OF assms])
  then show ?thesis
    by (simp add: incr_then_decr_def 1 m1)
qed

lemma incr_times_serial:
  assumes "serial_cas cas"
  shows "returned (atomic_incr_times n cas p old d s) p =
           Some (map (\<lambda>k. mem s p + of_nat k * d) [1..<Suc n], mem s p + of_nat n * d)"
proof (induction n arbitrary: s)
  case 0
  show ?case by (simp add: returned_def)
next
  case (Suc n)
  let ?s1 = "snd (cas p old (mem s p + d) (s\<lparr>mem := (mem s)(old := mem s p)\<rparr>))"
  have step: "atomic_incr cas p old d s = Some (mem s p + d, ?s1)"
    by (rule atomic_incr_serial[OF assms])
  have m1: "mem ?s1 p = mem s p + d"
    by (simp add: serial_cas_entry(2)[OF assms])
  from Suc.IH[of ?s1] obtain rs s2 where
    r: "atomic_incr_times n cas p old d ?s1 = Some (rs, s2)"
    and rs: "rs = map (\<lambda>k. mem ?s1 p + of_nat k * d) [1..<Suc n]"
    and c: "mem s2 p = mem ?s1 p + of_nat n * d"
    by (auto simp: returned_def)
  have "[1..<Suc (Suc n)] = 1 # map Suc [1..<Suc n]"
    by (simp add: upt_conv_Cons map_Suc_upt del: upt_Suc)
  then have "(mem s p + d) # rs = map (\<lambda>k. mem s p + of_nat k * d) [1..<Suc (Suc n)]"
    unfolding rs m1 by (simp add: algebra_simps comp_def del: upt_Suc)
  moreover have "mem s2 p = mem s p + of_nat (Suc n) * d"
    unfolding c m1 by (simp add: algebra_simps)
  ultimately show ?case
    using step r by (simp add: returned_def del: upt_Suc)
qed

text \<open>
  A failed compare and set sends the loop round again, on the state that call left; the
  loop itself puts no bound on how often.
\<close>

lemma atomic_incr_loop_retry:
  assumes "\<not> fst (cas p old (mem s old + d) s)"
  shows "atomic_incr_loop cas p old d s =
           atomic_incr_loop cas p old d (snd (cas p old (mem s old + d) s))"
  using assms by (subst atomic_incr_loop.simps) (auto simp: Let_def split: prod.splits)

lemma atomic_decr_loop_retry:
  assumes "\<not> fst (cas p old (mem s old - d) s)"
  shows "atomic_decr_loop cas p old d s =
           atomic_decr_loop cas p old d (snd (cas p old (mem s old - d) s))"
  using assms by (subst atomic_decr_loop.simps) (auto simp: Let_def split: prod.splits)

text \<open>
  Entered with a stale \<^verbatim>\<open>oldValue\<close> (the cell was written after the initial
  read), the loop fails once, has \<^verbatim>\<open>oldValue\<close> refreshed by that failure, and
  succeeds on the second attempt: the delta is applied to what the cell holds then.
\<close>

lemma atomic_incr_loop_stale:
  assumes "serial_cas cas" and stale: "mem s old \<noteq> mem s p"
  shows "returned (atomic_incr_loop cas p old d s) p = Some (mem s p + d, mem s p + d)"
proof -
  let ?s1 = "snd (cas p old (mem s old + d) s)"
  let ?s2 = "snd (cas p old (mem s p + d) ?s1)"
  from stale have ne: "p \<noteq> old" by auto
  from assms have fail: "\<not> fst (cas p old (mem s old + d) s)"
    and m1: "mem ?s1 = (mem s)(old := mem s p)"
    unfolding serial_cas_def by metis+
  from m1 ne have agree: "mem ?s1 p = mem ?s1 old" and old1: "mem ?s1 old = mem s p"
    by simp_all
  from assms(1) agree have ok: "fst (cas p old (mem s p + d) ?s1)"
    and m2: "mem ?s2 = (mem ?s1)(p := mem s p + d)"
    unfolding serial_cas_def by blast+
  have "atomic_incr_loop cas p old d s = atomic_incr_loop cas p old d ?s1"
    using fail by (rule atomic_incr_loop_retry[of cas p old s d])
  also have "\<dots> = Some (mem s p + d, ?s2)"
    using atomic_incr_loop_first[of cas p old ?s1 d] ok old1 by simp
  finally show ?thesis
    by (simp add: returned_def m2)
qed

text \<open>
  The loop returns only through a compare and set that succeeds; with one that never
  does, it does not return.
\<close>

lemma atomic_incr_loop_returns_after_success:
  assumes "atomic_incr_loop cas valuePtr oldValue delta s = Some y"
  shows "\<exists>p e w s0. fst (cas p e w s0)"
proof (rule atomic_incr_loop.raw_induct
    [where P = "\<lambda>cas valuePtr oldValue delta s y. \<exists>p e w s0. fst (cas p e w s0)", OF _ assms])
  fix loop :: "'a word cas \<Rightarrow> addr \<Rightarrow> addr \<Rightarrow> 'a word \<Rightarrow> 'a word machine
      \<Rightarrow> ('a word \<times> 'a word machine) option"
  fix cas :: "'a word cas" and valuePtr oldValue delta s y
  assume IH: "\<And>cas valuePtr oldValue delta s y.
      loop cas valuePtr oldValue delta s = Some y \<Longrightarrow> \<exists>p e w s0. fst (cas p e w s0)"
  assume eq: "(let newValue = mem s oldValue + delta;
          (rc, s') = cas valuePtr oldValue newValue s
      in if rc then Some (newValue, s')
         else loop cas valuePtr oldValue delta s') = Some y"
  show "\<exists>p e w s0. fst (cas p e w s0)"
  proof (cases "fst (cas valuePtr oldValue (mem s oldValue + delta) s)")
    case True
    then show ?thesis by blast
  next
    case False
    with eq have "loop cas valuePtr oldValue delta
        (snd (cas valuePtr oldValue (mem s oldValue + delta) s)) = Some y"
      by (cases "cas valuePtr oldValue (mem s oldValue + delta) s") (simp add: Let_def)
    then show ?thesis by (rule IH)
  qed
qed

lemma atomic_incr_loop_never_returns:
  "atomic_incr_loop (\<lambda>p e w s. (False, s)) valuePtr oldValue delta s = None"
proof (cases "atomic_incr_loop (\<lambda>p e w s. (False, s)) valuePtr oldValue delta s")
  case None
  then show ?thesis .
next
  case (Some y)
  from atomic_incr_loop_returns_after_success[OF this] show ?thesis by simp
qed

text \<open>
  The counted loops and the loops of the source run the same iterations: forgetting the
  count of the one gives the other, whether or not they return.
\<close>

lemma incr_counted_of_plain:
  assumes "atomic_incr_loop cas p old d s = Some y"
  shows "\<exists>m. atomic_incr_loop_counted cas p old d n s = Some (fst y, m, snd y)"
proof -
  have "\<forall>n. \<exists>m. atomic_incr_loop_counted cas p old d n s = Some (fst y, m, snd y)"
  proof (rule atomic_incr_loop.raw_induct
      [where P = "\<lambda>cas p old d s y.
          \<forall>n. \<exists>m. atomic_incr_loop_counted cas p old d n s = Some (fst y, m, snd y)", OF _ assms])
    fix loop :: "'a word cas \<Rightarrow> addr \<Rightarrow> addr \<Rightarrow> 'a word \<Rightarrow> 'a word machine
        \<Rightarrow> ('a word \<times> 'a word machine) option"
    fix cas :: "'a word cas" and p old d s y
    assume IH: "\<And>cas p old d s y. loop cas p old d s = Some y \<Longrightarrow>
        \<forall>n. \<exists>m. atomic_incr_loop_counted cas p old d n s = Some (fst y, m, snd y)"
    assume eq: "(let newValue = mem s old + d; (rc, s') = cas p old newValue s
        in if rc then Some (newValue, s') else loop cas p old d s') = Some y"
    obtain rc s' where c: "cas p old (mem s old + d) s = (rc, s')"
      by (cases "cas p old (mem s old + d) s")
    show "\<forall>n. \<exists>m. atomic_incr_loop_counted cas p old d n s = Some (fst y, m, snd y)"
    proof (cases rc)
      case True
      with eq c have "y = (mem s old + d, s')" by (simp add: Let_def)
      with c True show ?thesis
        by (subst atomic_incr_loop_counted.simps) (simp add: Let_def)
    next
      case False
      with eq c have "loop cas p old d s' = Some y" by (simp add: Let_def)
      from IH[OF this] c False show ?thesis
        by (subst atomic_incr_loop_counted.simps) (simp add: Let_def)
    qed
  qed
  then show ?thesis by blast
qed

lemma incr_plain_of_counted:
  assumes "atomic_incr_loop_counted cas p old d n s = Some z"
  shows "atomic_incr_loop cas p old d s = Some (fst z, snd (snd z))"
proof (rule atomic_incr_loop_counted.raw_induct
    [where P = "\<lambda>cas p old d n s z. atomic_incr_loop cas p old d s = Some (fst z, snd (snd z))",
     OF _ assms])
  fix loop :: "'a word cas \<Rightarrow> addr \<Rightarrow> addr \<Rightarrow> 'a word \<Rightarrow> nat \<Rightarrow> 'a word machine
      \<Rightarrow> ('a word \<times> nat \<times> 'a word machine) option"
  fix cas :: "'a word cas" and p old d n s z
  assume IH: "\<And>cas p old d n s z. loop cas p old d n s = Some z \<Longrightarrow>
      atomic_incr_loop cas p old d s = Some (fst z, snd (snd z))"
  assume eq: "(let newValue = mem s old + d; (rc, s') = cas p old newValue s
      in if rc then Some (newValue, Suc n, s') else loop cas p old d (Suc n) s') = Some z"
  obtain rc s' where c: "cas p old (mem s old + d) s = (rc, s')"
    by (cases "cas p old (mem s old + d) s")
  show "atomic_incr_loop cas p old d s = Some (fst z, snd (snd z))"
  proof (cases rc)
    case True
    with eq c have "z = (mem s old + d, Suc n, s')" by (simp add: Let_def)
    with c True show ?thesis
      by (subst atomic_incr_loop.simps) (simp add: Let_def)
  next
    case False
    with eq c have "loop cas p old d (Suc n) s' = Some z" by (simp add: Let_def)
    from IH[OF this] c False show ?thesis
      by (subst atomic_incr_loop.simps) (simp add: Let_def)
  qed
qed

lemma uncounted_incr_loop:
  "uncounted (atomic_incr_loop_counted cas p old d n s) = atomic_incr_loop cas p old d s"
proof (cases "atomic_incr_loop_counted cas p old d n s")
  case None
  show ?thesis
  proof (cases "atomic_incr_loop cas p old d s")
    case (Some y)
    from incr_counted_of_plain[OF this, of n] None show ?thesis by simp
  next
    case None: None
    with \<open>atomic_incr_loop_counted cas p old d n s = None\<close> show ?thesis
      by (simp add: uncounted_def)
  qed
next
  case (Some z)
  from incr_plain_of_counted[OF this] Some show ?thesis
    by (cases z) (simp add: uncounted_def)
qed

lemma uncounted_atomic_incr:
  "uncounted (atomic_incr_counted cas p old d s) = atomic_incr cas p old d s"
  by (simp add: atomic_incr_counted_def atomic_incr_def uncounted_incr_loop)

lemma atomic_incr_loop_counted_first:
  assumes "fst (cas p old (mem s old + d) s)"
  shows "atomic_incr_loop_counted cas p old d n s =
           Some (mem s old + d, Suc n, snd (cas p old (mem s old + d) s))"
  using assms by (subst atomic_incr_loop_counted.simps) (auto simp: Let_def split: prod.splits)

lemma atomic_incr_loop_counted_retry:
  assumes "\<not> fst (cas p old (mem s old + d) s)"
  shows "atomic_incr_loop_counted cas p old d n s =
           atomic_incr_loop_counted cas p old d (Suc n) (snd (cas p old (mem s old + d) s))"
  using assms by (subst atomic_incr_loop_counted.simps) (auto simp: Let_def split: prod.splits)

lemma iterations_incr_serial:
  assumes "serial_cas cas"
  shows "iterations (atomic_incr_counted cas p old d s) = Some 1"
  using serial_cas_entry(1)[OF assms, where p = p and old = old and s = s and w = "mem s p + d"]
    atomic_incr_loop_counted_first[of cas p old "s\<lparr>mem := (mem s)(old := mem s p)\<rparr>" d 0]
  by (simp add: atomic_incr_counted_def iterations_def)

lemma decr_counted_of_plain:
  assumes "atomic_decr_loop cas p old d s = Some y"
  shows "\<exists>m. atomic_decr_loop_counted cas p old d n s = Some (fst y, m, snd y)"
proof -
  have "\<forall>n. \<exists>m. atomic_decr_loop_counted cas p old d n s = Some (fst y, m, snd y)"
  proof (rule atomic_decr_loop.raw_induct
      [where P = "\<lambda>cas p old d s y.
          \<forall>n. \<exists>m. atomic_decr_loop_counted cas p old d n s = Some (fst y, m, snd y)", OF _ assms])
    fix loop :: "'a word cas \<Rightarrow> addr \<Rightarrow> addr \<Rightarrow> 'a word \<Rightarrow> 'a word machine
        \<Rightarrow> ('a word \<times> 'a word machine) option"
    fix cas :: "'a word cas" and p old d s y
    assume IH: "\<And>cas p old d s y. loop cas p old d s = Some y \<Longrightarrow>
        \<forall>n. \<exists>m. atomic_decr_loop_counted cas p old d n s = Some (fst y, m, snd y)"
    assume eq: "(let newValue = mem s old - d; (rc, s') = cas p old newValue s
        in if rc then Some (newValue, s') else loop cas p old d s') = Some y"
    obtain rc s' where c: "cas p old (mem s old - d) s = (rc, s')"
      by (cases "cas p old (mem s old - d) s")
    show "\<forall>n. \<exists>m. atomic_decr_loop_counted cas p old d n s = Some (fst y, m, snd y)"
    proof (cases rc)
      case True
      with eq c have "y = (mem s old - d, s')" by (simp add: Let_def)
      with c True show ?thesis
        by (subst atomic_decr_loop_counted.simps) (simp add: Let_def)
    next
      case False
      with eq c have "loop cas p old d s' = Some y" by (simp add: Let_def)
      from IH[OF this] c False show ?thesis
        by (subst atomic_decr_loop_counted.simps) (simp add: Let_def)
    qed
  qed
  then show ?thesis by blast
qed

lemma decr_plain_of_counted:
  assumes "atomic_decr_loop_counted cas p old d n s = Some z"
  shows "atomic_decr_loop cas p old d s = Some (fst z, snd (snd z))"
proof (rule atomic_decr_loop_counted.raw_induct
    [where P = "\<lambda>cas p old d n s z. atomic_decr_loop cas p old d s = Some (fst z, snd (snd z))",
     OF _ assms])
  fix loop :: "'a word cas \<Rightarrow> addr \<Rightarrow> addr \<Rightarrow> 'a word \<Rightarrow> nat \<Rightarrow> 'a word machine
      \<Rightarrow> ('a word \<times> nat \<times> 'a word machine) option"
  fix cas :: "'a word cas" and p old d n s z
  assume IH: "\<And>cas p old d n s z. loop cas p old d n s = Some z \<Longrightarrow>
      atomic_decr_loop cas p old d s = Some (fst z, snd (snd z))"
  assume eq: "(let newValue = mem s old - d; (rc, s') = cas p old newValue s
      in if rc then Some (newValue, Suc n, s') else loop cas p old d (Suc n) s') = Some z"
  obtain rc s' where c: "cas p old (mem s old - d) s = (rc, s')"
    by (cases "cas p old (mem s old - d) s")
  show "atomic_decr_loop cas p old d s = Some (fst z, snd (snd z))"
  proof (cases rc)
    case True
    with eq c have "z = (mem s old - d, Suc n, s')" by (simp add: Let_def)
    with c True show ?thesis
      by (subst atomic_decr_loop.simps) (simp add: Let_def)
  next
    case False
    with eq c have "loop cas p old d (Suc n) s' = Some z" by (simp add: Let_def)
    from IH[OF this] c False show ?thesis
      by (subst atomic_decr_loop.simps) (simp add: Let_def)
  qed
qed

lemma uncounted_decr_loop:
  "uncounted (atomic_decr_loop_counted cas p old d n s) = atomic_decr_loop cas p old d s"
proof (cases "atomic_decr_loop_counted cas p old d n s")
  case None
  show ?thesis
  proof (cases "atomic_decr_loop cas p old d s")
    case (Some y)
    from decr_counted_of_plain[OF this, of n] None show ?thesis by simp
  next
    case None: None
    with \<open>atomic_decr_loop_counted cas p old d n s = None\<close> show ?thesis
      by (simp add: uncounted_def)
  qed
next
  case (Some z)
  from decr_plain_of_counted[OF this] Some show ?thesis
    by (cases z) (simp add: uncounted_def)
qed

lemma uncounted_atomic_decr:
  "uncounted (atomic_decr_counted cas p old d s) = atomic_decr cas p old d s"
  by (simp add: atomic_decr_counted_def atomic_decr_def uncounted_decr_loop)

lemma atomic_decr_loop_counted_first:
  assumes "fst (cas p old (mem s old - d) s)"
  shows "atomic_decr_loop_counted cas p old d n s =
           Some (mem s old - d, Suc n, snd (cas p old (mem s old - d) s))"
  using assms by (subst atomic_decr_loop_counted.simps) (auto simp: Let_def split: prod.splits)

lemma iterations_decr_serial:
  assumes "serial_cas cas"
  shows "iterations (atomic_decr_counted cas p old d s) = Some 1"
  using serial_cas_entry(1)[OF assms, where p = p and old = old and s = s and w = "mem s p - d"]
    atomic_decr_loop_counted_first[of cas p old "s\<lparr>mem := (mem s)(old := mem s p)\<rparr>" d 0]
  by (simp add: atomic_decr_counted_def iterations_def)


lemma retry_budget_variants:
  "retry_budget (\<lambda>s. 0) atomic_cas_u8 p e" "retry_budget (\<lambda>s. 0) atomic_cas_u16 p e"
  "retry_budget (\<lambda>s. 0) atomic_cas_u32 p e" "retry_budget (\<lambda>s. 0) atomic_cas_m0 p e"
  by (simp_all add: retry_budget_def atomic_cas_success_iff)

text \<open>
  With a compare and set that may fail so, but not for ever, the loop retries and then
  returns: it adds the delta to the content of the cell, after at most one iteration more
  than the budget allows failures.
\<close>

lemma incr_loop_counted_weak:
  assumes w: "weak_cas cas p old" and b: "retry_budget budget cas p old"
    and agree: "mem s old = mem s p"
  shows "\<exists>m s'. atomic_incr_loop_counted cas p old d n s = Some (mem s p + d, m, s') \<and>
           mem s' p = mem s p + d \<and> budget s' \<le> budget s \<and> m \<le> Suc (n + budget s)"
  using agree
proof (induction "budget s" arbitrary: s n rule: less_induct)
  case less
  let ?r = "cas p old (mem s old + d) s"
  show ?case
  proof (cases "fst ?r")
    case True
    from w True have "mem (snd ?r) p = mem s old + d"
      unfolding weak_cas_def by blast
    moreover from b have "budget (snd ?r) \<le> budget s"
      unfolding retry_budget_def by blast
    ultimately show ?thesis
      using atomic_incr_loop_counted_first[of cas p old s d n] True less.prems by simp
  next
    case False
    from w False have m: "mem (snd ?r) p = mem s p" "mem (snd ?r) old = mem s p"
      unfolding weak_cas_def by blast+
    from b False less.prems have lt: "budget (snd ?r) < budget s"
      unfolding retry_budget_def by metis
    from m have "mem (snd ?r) old = mem (snd ?r) p" by simp
    from less.hyps[OF lt this, of "Suc n"] obtain k s' where
      "atomic_incr_loop_counted cas p old d (Suc n) (snd ?r) = Some (mem (snd ?r) p + d, k, s')"
      "mem s' p = mem (snd ?r) p + d" "budget s' \<le> budget (snd ?r)"
      "k \<le> Suc (Suc n + budget (snd ?r))"
      by blast
    with m lt show ?thesis
      using atomic_incr_loop_counted_retry[of cas p old s d n] False by simp
  qed
qed

lemma incr_counted_weak:
  assumes w: "weak_cas cas p old" and b: "retry_budget budget cas p old"
  shows "\<exists>m s'. atomic_incr_counted cas p old d s = Some (mem s p + d, m, s') \<and>
           mem s' p = mem s p + d \<and> budget s' \<le> budget s \<and> m \<le> Suc (budget s)"
proof -
  let ?s0 = "s\<lparr>mem := (mem s)(old := mem s p)\<rparr>"
  have "mem ?s0 old = mem ?s0 p" by simp
  from incr_loop_counted_weak[OF w b this, of d 0]
  obtain m s' where "atomic_incr_loop_counted cas p old d 0 ?s0 = Some (mem ?s0 p + d, m, s')"
    "mem s' p = mem ?s0 p + d" "budget s' \<le> budget ?s0" "m \<le> Suc (0 + budget ?s0)"
    by blast
  moreover have "mem ?s0 p = mem s p" by simp
  moreover from b have "budget ?s0 = budget s" unfolding retry_budget_def by blast
  ultimately show ?thesis
    unfolding atomic_incr_counted_def by auto
qed

lemma incr_weak:
  assumes w: "weak_cas cas p old" and b: "retry_budget budget cas p old"
  shows "\<exists>s'. atomic_incr cas p old d s = Some (mem s p + d, s') \<and> mem s' p = mem s p + d"
proof -
  from incr_counted_weak[OF w b, of d s] obtain m s' where
    "atomic_incr_counted cas p old d s = Some (mem s p + d, m, s')" "mem s' p = mem s p + d"
    by blast
  then show ?thesis
    using uncounted_atomic_incr[of cas p old d s, symmetric] by (auto simp: uncounted_def)
qed

lemma incr_times_weak:
  assumes w: "weak_cas cas p old" and b: "retry_budget budget cas p old"
  shows "returned (atomic_incr_times n cas p old d s) p =
           Some (map (\<lambda>k. mem s p + of_nat k * d) [1..<Suc n], mem s p + of_nat n * d)"
proof (induction n arbitrary: s)
  case 0
  show ?case by (simp add: returned_def)
next
  case (Suc n)
  from incr_weak[OF w b, of d s] obtain s1 where
    step: "atomic_incr cas p old d s = Some (mem s p + d, s1)" and m1: "mem s1 p = mem s p + d"
    by blast
  from Suc.IH[of s1] obtain rs s2 where
    r: "atomic_incr_times n cas p old d s1 = Some (rs, s2)"
    and rs: "rs = map (\<lambda>k. mem s1 p + of_nat k * d) [1..<Suc n]"
    and c: "mem s2 p = mem s1 p + of_nat n * d"
    by (auto simp: returned_def)
  have "[1..<Suc (Suc n)] = 1 # map Suc [1..<Suc n]"
    by (simp add: upt_conv_Cons map_Suc_upt del: upt_Suc)
  then have "(mem s p + d) # rs = map (\<lambda>k. mem s p + of_nat k * d) [1..<Suc (Suc n)]"
    unfolding rs m1 by (simp add: algebra_simps comp_def del: upt_Suc)
  moreover have "mem s2 p = mem s p + of_nat (Suc n) * d"
    unfolding c m1 by (simp add: algebra_simps)
  ultimately show ?case
    using step r by (simp add: returned_def del: upt_Suc)
qed

text \<open>
  The preempted specialisations with the countdown handler are such compare and sets:
  each time the handler runs, the attempt it preempts fails, and the counter bounds how
  often that happens.
\<close>

lemma weak_cas_countdown:
  assumes "c \<noteq> p" "c \<noteq> e"
  shows "weak_cas (atomic_cas_u8_preempted (countdown_irq c)) p e"
    and "weak_cas (atomic_cas_u16_preempted (countdown_irq c)) p e"
    and "weak_cas (atomic_cas_u32_preempted (countdown_irq c)) p e"
  using assms
  by (auto simp: weak_cas_def atomic_cas_u8_preempted_eq atomic_cas_u16_preempted_eq
      atomic_cas_u32_preempted_eq preempt_def countdown_irq_def CLREX_def Let_def)

lemma retry_budget_countdown:
  assumes "c \<noteq> p" "c \<noteq> e"
  shows "retry_budget (\<lambda>s. unat (mem s c)) (atomic_cas_u8_preempted (countdown_irq c)) p e"
    and "retry_budget (\<lambda>s. unat (mem s c)) (atomic_cas_u16_preempted (countdown_irq c)) p e"
    and "retry_budget (\<lambda>s. unat (mem s c)) (atomic_cas_u32_preempted (countdown_irq c)) p e"
  using assms
  by (auto simp: retry_budget_def atomic_cas_u8_preempted_eq atomic_cas_u16_preempted_eq
      atomic_cas_u32_preempted_eq preempt_def countdown_irq_def CLREX_def Let_def
      unat_minus_one unat_gt_0 less_imp_le measure_unat)

text \<open>
  C6. Decrement mirrors increment. Without interference, a call of
  \<^verbatim>\<open>atomic_decr\<close> on a cell that holds \<open>v\<close> returns \<open>v - d\<close> and leaves
  \<open>v - d\<close> in the cell, and a call of \<^verbatim>\<open>atomic_incr\<close> returns \<open>v + d\<close> and
  leaves \<open>v + d\<close> in the cell: the value stored is computed from \<open>v\<close>, the value the
  successful compare and set found in the cell. This is so with each of the four
  variants of compare and set.
\<close>

theorem atomic_incr_decr_serial:
  "returned (atomic_decr atomic_cas_u8 valuePtr oldValue d8 s8) valuePtr
     = Some (mem s8 valuePtr - d8, mem s8 valuePtr - d8) \<and>
   returned (atomic_incr atomic_cas_u8 valuePtr oldValue d8 s8) valuePtr
     = Some (mem s8 valuePtr + d8, mem s8 valuePtr + d8) \<and>
   returned (atomic_decr atomic_cas_u16 valuePtr oldValue d16 s16) valuePtr
     = Some (mem s16 valuePtr - d16, mem s16 valuePtr - d16) \<and>
   returned (atomic_incr atomic_cas_u16 valuePtr oldValue d16 s16) valuePtr
     = Some (mem s16 valuePtr + d16, mem s16 valuePtr + d16) \<and>
   returned (atomic_decr atomic_cas_u32 valuePtr oldValue d32 s32) valuePtr
     = Some (mem s32 valuePtr - d32, mem s32 valuePtr - d32) \<and>
   returned (atomic_incr atomic_cas_u32 valuePtr oldValue d32 s32) valuePtr
     = Some (mem s32 valuePtr + d32, mem s32 valuePtr + d32) \<and>
   returned (atomic_decr atomic_cas_m0 valuePtr oldValue d s) valuePtr
     = Some (mem s valuePtr - d, mem s valuePtr - d) \<and>
   returned (atomic_incr atomic_cas_m0 valuePtr oldValue d s) valuePtr
     = Some (mem s valuePtr + d, mem s valuePtr + d)"
proof (intro conjI)
  show "returned (atomic_decr atomic_cas_u8 valuePtr oldValue d8 s8) valuePtr
     = Some (mem s8 valuePtr - d8, mem s8 valuePtr - d8)"
    by (rule returned_decr_serial[OF serial_cas_u8])
  show "returned (atomic_incr atomic_cas_u8 valuePtr oldValue d8 s8) valuePtr
     = Some (mem s8 valuePtr + d8, mem s8 valuePtr + d8)"
    by (rule returned_incr_serial[OF serial_cas_u8])
  show "returned (atomic_decr atomic_cas_u16 valuePtr oldValue d16 s16) valuePtr
     = Some (mem s16 valuePtr - d16, mem s16 valuePtr - d16)"
    by (rule returned_decr_serial[OF serial_cas_u16])
  show "returned (atomic_incr atomic_cas_u16 valuePtr oldValue d16 s16) valuePtr
     = Some (mem s16 valuePtr + d16, mem s16 valuePtr + d16)"
    by (rule returned_incr_serial[OF serial_cas_u16])
  show "returned (atomic_decr atomic_cas_u32 valuePtr oldValue d32 s32) valuePtr
     = Some (mem s32 valuePtr - d32, mem s32 valuePtr - d32)"
    by (rule returned_decr_serial[OF serial_cas_u32])
  show "returned (atomic_incr atomic_cas_u32 valuePtr oldValue d32 s32) valuePtr
     = Some (mem s32 valuePtr + d32, mem s32 valuePtr + d32)"
    by (rule returned_incr_serial[OF serial_cas_u32])
  show "returned (atomic_decr atomic_cas_m0 valuePtr oldValue d s) valuePtr
     = Some (mem s valuePtr - d, mem s valuePtr - d)"
    by (rule returned_decr_serial[OF serial_cas_m0])
  show "returned (atomic_incr atomic_cas_m0 valuePtr oldValue d s) valuePtr
     = Some (mem s valuePtr + d, mem s valuePtr + d)"
    by (rule returned_incr_serial[OF serial_cas_m0])
qed

text \<open>
  C7. The retry loops end when nothing interferes. For every content of the cell and
  every delta, \<^verbatim>\<open>atomic_incr\<close> and \<^verbatim>\<open>atomic_decr\<close> return, and the
  loop runs exactly one iteration: the first compare and set succeeds. This is so with
  each of the four variants of compare and set. The iterations are those of the counted
  loops, which are the loops of the source: with any compare and set at all, forgetting
  the count of a counted call gives the call of the source.
\<close>

theorem atomic_incr_decr_one_iteration:
  "iterations (atomic_incr_counted atomic_cas_u8 valuePtr oldValue d8 s8) = Some 1 \<and>
   (\<exists>y. atomic_incr atomic_cas_u8 valuePtr oldValue d8 s8 = Some y) \<and>
   iterations (atomic_decr_counted atomic_cas_u8 valuePtr oldValue d8 s8) = Some 1 \<and>
   (\<exists>y. atomic_decr atomic_cas_u8 valuePtr oldValue d8 s8 = Some y) \<and>
   iterations (atomic_incr_counted atomic_cas_u16 valuePtr oldValue d16 s16) = Some 1 \<and>
   (\<exists>y. atomic_incr atomic_cas_u16 valuePtr oldValue d16 s16 = Some y) \<and>
   iterations (atomic_decr_counted atomic_cas_u16 valuePtr oldValue d16 s16) = Some 1 \<and>
   (\<exists>y. atomic_decr atomic_cas_u16 valuePtr oldValue d16 s16 = Some y) \<and>
   iterations (atomic_incr_counted atomic_cas_u32 valuePtr oldValue d32 s32) = Some 1 \<and>
   (\<exists>y. atomic_incr atomic_cas_u32 valuePtr oldValue d32 s32 = Some y) \<and>
   iterations (atomic_decr_counted atomic_cas_u32 valuePtr oldValue d32 s32) = Some 1 \<and>
   (\<exists>y. atomic_decr atomic_cas_u32 valuePtr oldValue d32 s32 = Some y) \<and>
   iterations (atomic_incr_counted atomic_cas_m0 valuePtr oldValue d s) = Some 1 \<and>
   (\<exists>y. atomic_incr atomic_cas_m0 valuePtr oldValue d s = Some y) \<and>
   iterations (atomic_decr_counted atomic_cas_m0 valuePtr oldValue d s) = Some 1 \<and>
   (\<exists>y. atomic_decr atomic_cas_m0 valuePtr oldValue d s = Some y) \<and>
   uncounted (atomic_incr_counted cas valuePtr oldValue dc sc) = atomic_incr cas valuePtr oldValue dc sc \<and>
   uncounted (atomic_decr_counted cas valuePtr oldValue dc sc) = atomic_decr cas valuePtr oldValue dc sc"
proof (intro conjI)
  show "iterations (atomic_incr_counted atomic_cas_u8 valuePtr oldValue d8 s8) = Some 1"
    by (rule iterations_incr_serial[OF serial_cas_u8])
  show "\<exists>y. atomic_incr atomic_cas_u8 valuePtr oldValue d8 s8 = Some y"
    by (simp add: atomic_incr_serial[OF serial_cas_u8])
  show "iterations (atomic_decr_counted atomic_cas_u8 valuePtr oldValue d8 s8) = Some 1"
    by (rule iterations_decr_serial[OF serial_cas_u8])
  show "\<exists>y. atomic_decr atomic_cas_u8 valuePtr oldValue d8 s8 = Some y"
    by (simp add: atomic_decr_serial[OF serial_cas_u8])
  show "iterations (atomic_incr_counted atomic_cas_u16 valuePtr oldValue d16 s16) = Some 1"
    by (rule iterations_incr_serial[OF serial_cas_u16])
  show "\<exists>y. atomic_incr atomic_cas_u16 valuePtr oldValue d16 s16 = Some y"
    by (simp add: atomic_incr_serial[OF serial_cas_u16])
  show "iterations (atomic_decr_counted atomic_cas_u16 valuePtr oldValue d16 s16) = Some 1"
    by (rule iterations_decr_serial[OF serial_cas_u16])
  show "\<exists>y. atomic_decr atomic_cas_u16 valuePtr oldValue d16 s16 = Some y"
    by (simp add: atomic_decr_serial[OF serial_cas_u16])
  show "iterations (atomic_incr_counted atomic_cas_u32 valuePtr oldValue d32 s32) = Some 1"
    by (rule iterations_incr_serial[OF serial_cas_u32])
  show "\<exists>y. atomic_incr atomic_cas_u32 valuePtr oldValue d32 s32 = Some y"
    by (simp add: atomic_incr_serial[OF serial_cas_u32])
  show "iterations (atomic_decr_counted atomic_cas_u32 valuePtr oldValue d32 s32) = Some 1"
    by (rule iterations_decr_serial[OF serial_cas_u32])
  show "\<exists>y. atomic_decr atomic_cas_u32 valuePtr oldValue d32 s32 = Some y"
    by (simp add: atomic_decr_serial[OF serial_cas_u32])
  show "iterations (atomic_incr_counted atomic_cas_m0 valuePtr oldValue d s) = Some 1"
    by (rule iterations_incr_serial[OF serial_cas_m0])
  show "\<exists>y. atomic_incr atomic_cas_m0 valuePtr oldValue d s = Some y"
    by (simp add: atomic_incr_serial[OF serial_cas_m0])
  show "iterations (atomic_decr_counted atomic_cas_m0 valuePtr oldValue d s) = Some 1"
    by (rule iterations_decr_serial[OF serial_cas_m0])
  show "\<exists>y. atomic_decr atomic_cas_m0 valuePtr oldValue d s = Some y"
    by (simp add: atomic_decr_serial[OF serial_cas_m0])
  show "uncounted (atomic_incr_counted cas valuePtr oldValue dc sc) = atomic_incr cas valuePtr oldValue dc sc"
    by (rule uncounted_atomic_incr)
  show "uncounted (atomic_decr_counted cas valuePtr oldValue dc sc) = atomic_decr cas valuePtr oldValue dc sc"
    by (rule uncounted_atomic_decr)
qed

text \<open>
  C10. Increment, then decrement. Without interference, \<^verbatim>\<open>atomic_incr\<close> with
  the delta \<open>d\<close> followed by \<^verbatim>\<open>atomic_decr\<close> with the same delta leaves the
  cell with the content \<open>v\<close> it had at the start, and the second call returns \<open>v\<close>.
\<close>

theorem incr_then_decr_restores:
  "returned (incr_then_decr atomic_cas_u8 valuePtr oldValue d8 s8) valuePtr
     = Some (mem s8 valuePtr, mem s8 valuePtr) \<and>
   returned (incr_then_decr atomic_cas_u16 valuePtr oldValue d16 s16) valuePtr
     = Some (mem s16 valuePtr, mem s16 valuePtr) \<and>
   returned (incr_then_decr atomic_cas_u32 valuePtr oldValue d32 s32) valuePtr
     = Some (mem s32 valuePtr, mem s32 valuePtr) \<and>
   returned (incr_then_decr atomic_cas_m0 valuePtr oldValue d s) valuePtr
     = Some (mem s valuePtr, mem s valuePtr)"
proof (intro conjI)
  show "returned (incr_then_decr atomic_cas_u8 valuePtr oldValue d8 s8) valuePtr
     = Some (mem s8 valuePtr, mem s8 valuePtr)"
    by (rule incr_then_decr_serial[OF serial_cas_u8])
  show "returned (incr_then_decr atomic_cas_u16 valuePtr oldValue d16 s16) valuePtr
     = Some (mem s16 valuePtr, mem s16 valuePtr)"
    by (rule incr_then_decr_serial[OF serial_cas_u16])
  show "returned (incr_then_decr atomic_cas_u32 valuePtr oldValue d32 s32) valuePtr
     = Some (mem s32 valuePtr, mem s32 valuePtr)"
    by (rule incr_then_decr_serial[OF serial_cas_u32])
  show "returned (incr_then_decr atomic_cas_m0 valuePtr oldValue d s) valuePtr
     = Some (mem s valuePtr, mem s valuePtr)"
    by (rule incr_then_decr_serial[OF serial_cas_m0])
qed

text \<open>
  C3. Sequential increments accumulate. \<open>N\<close> calls of \<^verbatim>\<open>atomic_incr\<close> with the
  delta \<open>d\<close>, one after the other, on a cell that holds 0 and that nothing else writes,
  all return, the \<open>k\<close>-th of them returns \<open>k * d\<close>, and the cell holds \<open>N * d\<close> in the
  end; the products are those of the cell's type. This is so with each of the four
  variants of compare and set when nothing preempts them, where no call retries, and
  with every compare and set that may fail while the cell holds the expected value, as
  long as a budget bounds such failures, however many retries that makes.
\<close>

theorem atomic_incr_times_from_zero:
  "(mem s8 valuePtr = 0 \<longrightarrow>
      returned (atomic_incr_times N atomic_cas_u8 valuePtr oldValue d8 s8) valuePtr
        = Some (map (\<lambda>k. of_nat k * d8) [1..<Suc N], of_nat N * d8)) \<and>
   (mem s16 valuePtr = 0 \<longrightarrow>
      returned (atomic_incr_times N atomic_cas_u16 valuePtr oldValue d16 s16) valuePtr
        = Some (map (\<lambda>k. of_nat k * d16) [1..<Suc N], of_nat N * d16)) \<and>
   (mem s32 valuePtr = 0 \<longrightarrow>
      returned (atomic_incr_times N atomic_cas_u32 valuePtr oldValue d32 s32) valuePtr
        = Some (map (\<lambda>k. of_nat k * d32) [1..<Suc N], of_nat N * d32)) \<and>
   (mem s valuePtr = 0 \<longrightarrow>
      returned (atomic_incr_times N atomic_cas_m0 valuePtr oldValue d s) valuePtr
        = Some (map (\<lambda>k. of_nat k * d) [1..<Suc N], of_nat N * d)) \<and>
   (weak_cas cas valuePtr oldValue \<and> retry_budget budget cas valuePtr oldValue \<and>
    mem sw valuePtr = 0 \<longrightarrow>
      returned (atomic_incr_times N cas valuePtr oldValue dw sw) valuePtr
        = Some (map (\<lambda>k. of_nat k * dw) [1..<Suc N], of_nat N * dw))"
proof (intro conjI impI)
  assume "mem s8 valuePtr = 0"
  then show "returned (atomic_incr_times N atomic_cas_u8 valuePtr oldValue d8 s8) valuePtr
        = Some (map (\<lambda>k. of_nat k * d8) [1..<Suc N], of_nat N * d8)"
    using incr_times_serial[OF serial_cas_u8, of N valuePtr oldValue d8 s8] by simp
next
  assume "mem s16 valuePtr = 0"
  then show "returned (atomic_incr_times N atomic_cas_u16 valuePtr oldValue d16 s16) valuePtr
        = Some (map (\<lambda>k. of_nat k * d16) [1..<Suc N], of_nat N * d16)"
    using incr_times_serial[OF serial_cas_u16, of N valuePtr oldValue d16 s16] by simp
next
  assume "mem s32 valuePtr = 0"
  then show "returned (atomic_incr_times N atomic_cas_u32 valuePtr oldValue d32 s32) valuePtr
        = Some (map (\<lambda>k. of_nat k * d32) [1..<Suc N], of_nat N * d32)"
    using incr_times_serial[OF serial_cas_u32, of N valuePtr oldValue d32 s32] by simp
next
  assume "mem s valuePtr = 0"
  then show "returned (atomic_incr_times N atomic_cas_m0 valuePtr oldValue d s) valuePtr
        = Some (map (\<lambda>k. of_nat k * d) [1..<Suc N], of_nat N * d)"
    using incr_times_serial[OF serial_cas_m0, of N valuePtr oldValue d s] by simp
next
  assume h: "weak_cas cas valuePtr oldValue \<and> retry_budget budget cas valuePtr oldValue \<and>
    mem sw valuePtr = 0"
  then have "weak_cas cas valuePtr oldValue" and "retry_budget budget cas valuePtr oldValue"
    by simp_all
  from incr_times_weak[OF this, of N dw sw] h
  show "returned (atomic_incr_times N cas valuePtr oldValue dw sw) valuePtr
        = Some (map (\<lambda>k. of_nat k * dw) [1..<Suc N], of_nat N * dw)"
    by simp
qed

theorem atomic_incr_times_from_zero_witness:
  "returned (atomic_incr_times 3 atomic_cas_u8 0 1 100
      \<lparr>mem = (\<lambda>a. 0), monitor = None, primask = False\<rparr>) 0 = Some ([100, 200, 44], 44) \<and>
   returned (atomic_incr_times 3 atomic_cas_u16 0 1 100
      \<lparr>mem = (\<lambda>a. 0), monitor = None, primask = False\<rparr>) 0 = Some ([100, 200, 300], 300) \<and>
   returned (atomic_incr_times 3 atomic_cas_u32 0 1 100
      \<lparr>mem = (\<lambda>a. 0), monitor = None, primask = False\<rparr>) 0 = Some ([100, 200, 300], 300) \<and>
   returned (atomic_incr_times 3 atomic_cas_m0 0 1 (100 :: 8 word)
      \<lparr>mem = (\<lambda>a. 0), monitor = None, primask = True\<rparr>) 0 = Some ([100, 200, 44], 44) \<and>
   returned (atomic_incr_times 3 (atomic_cas_u8_preempted (countdown_irq 2)) 0 1 100
      \<lparr>mem = (\<lambda>a. 0)(2 := 4), monitor = None, primask = False\<rparr>) 0 = Some ([100, 200, 44], 44)"
proof -
  have w: "weak_cas (atomic_cas_u8_preempted (countdown_irq 2)) 0 1"
    by (rule weak_cas_countdown) simp_all
  have b: "retry_budget (\<lambda>s. unat (mem s 2)) (atomic_cas_u8_preempted (countdown_irq 2)) 0 1"
    by (rule retry_budget_countdown) simp_all
  show ?thesis
    using atomic_incr_times_from_zero
      [where valuePtr = 0 and oldValue = 1 and N = 3
         and ?s8.0 = "\<lparr>mem = (\<lambda>a. 0), monitor = None, primask = False\<rparr>" and ?d8.0 = 100
         and ?s16.0 = "\<lparr>mem = (\<lambda>a. 0), monitor = None, primask = False\<rparr>" and ?d16.0 = 100
         and ?s32.0 = "\<lparr>mem = (\<lambda>a. 0), monitor = None, primask = False\<rparr>" and ?d32.0 = 100
         and s = "\<lparr>mem = (\<lambda>a. 0), monitor = None, primask = True\<rparr>" and d = "100 :: 8 word"
         and cas = "atomic_cas_u8_preempted (countdown_irq 2)"
         and budget = "\<lambda>s. unat (mem s 2)"
         and sw = "\<lparr>mem = (\<lambda>a. 0)(2 := 4), monitor = None, primask = False\<rparr>" and dw = 100]
      w b
    by (simp add: upt_conv_Cons)
qed

text \<open>The largest value of a word, read as an unsigned integer.\<close>

lemma uint_max: "uint (- 1 :: 'a::len word) = 2 ^ LENGTH('a) - 1"
  by (simp add: unsigned_minus_1_eq_mask mask_eq_exp_minus_1)

text \<open>
  C9. Arithmetic is modulo \<open>2 ^ w\<close>. On a cell of \<open>w\<close> bits that holds \<open>v\<close>,
  \<^verbatim>\<open>atomic_incr\<close> stores and returns \<open>(v + d) mod 2 ^ w\<close> and
  \<^verbatim>\<open>atomic_decr\<close> stores and returns \<open>(v - d) mod 2 ^ w\<close>, the words read as
  unsigned integers. In particular, incrementing an 8-bit cell that holds \<open>0xFF\<close> by 1
  gives \<open>0x00\<close>, and decrementing a cell that holds 0 by 1 gives the largest value of
  the type.
\<close>

theorem atomic_incr_decr_modular:
  fixes s z :: "'a::len word machine" and t :: "8 word machine"
  shows
  "returned_uint (atomic_incr atomic_cas_u8 valuePtr oldValue d8 s8) valuePtr
     = (let m = (uint (mem s8 valuePtr) + uint d8) mod 2 ^ 8 in Some (m, m)) \<and>
   returned_uint (atomic_decr atomic_cas_u8 valuePtr oldValue d8 s8) valuePtr
     = (let m = (uint (mem s8 valuePtr) - uint d8) mod 2 ^ 8 in Some (m, m)) \<and>
   returned_uint (atomic_incr atomic_cas_u16 valuePtr oldValue d16 s16) valuePtr
     = (let m = (uint (mem s16 valuePtr) + uint d16) mod 2 ^ 16 in Some (m, m)) \<and>
   returned_uint (atomic_decr atomic_cas_u16 valuePtr oldValue d16 s16) valuePtr
     = (let m = (uint (mem s16 valuePtr) - uint d16) mod 2 ^ 16 in Some (m, m)) \<and>
   returned_uint (atomic_incr atomic_cas_u32 valuePtr oldValue d32 s32) valuePtr
     = (let m = (uint (mem s32 valuePtr) + uint d32) mod 2 ^ 32 in Some (m, m)) \<and>
   returned_uint (atomic_decr atomic_cas_u32 valuePtr oldValue d32 s32) valuePtr
     = (let m = (uint (mem s32 valuePtr) - uint d32) mod 2 ^ 32 in Some (m, m)) \<and>
   returned_uint (atomic_incr atomic_cas_m0 valuePtr oldValue d s) valuePtr
     = (let m = (uint (mem s valuePtr) + uint d) mod 2 ^ LENGTH('a) in Some (m, m)) \<and>
   returned_uint (atomic_decr atomic_cas_m0 valuePtr oldValue d s) valuePtr
     = (let m = (uint (mem s valuePtr) - uint d) mod 2 ^ LENGTH('a) in Some (m, m)) \<and>
   (mem t8 valuePtr = 0xFF \<longrightarrow>
      returned (atomic_incr atomic_cas_u8 valuePtr oldValue 1 t8) valuePtr = Some (0x00, 0x00)) \<and>
   (mem t valuePtr = 0xFF \<longrightarrow>
      returned (atomic_incr atomic_cas_m0 valuePtr oldValue 1 t) valuePtr = Some (0x00, 0x00)) \<and>
   (mem z8 valuePtr = 0 \<longrightarrow>
      returned (atomic_decr atomic_cas_u8 valuePtr oldValue 1 z8) valuePtr = Some (0xFF, 0xFF)) \<and>
   (mem z16 valuePtr = 0 \<longrightarrow>
      returned (atomic_decr atomic_cas_u16 valuePtr oldValue 1 z16) valuePtr = Some (0xFFFF, 0xFFFF)) \<and>
   (mem z32 valuePtr = 0 \<longrightarrow>
      returned (atomic_decr atomic_cas_u32 valuePtr oldValue 1 z32) valuePtr
        = Some (0xFFFFFFFF, 0xFFFFFFFF)) \<and>
   (mem z valuePtr = 0 \<longrightarrow>
      returned_uint (atomic_decr atomic_cas_m0 valuePtr oldValue 1 z) valuePtr
        = Some (2 ^ LENGTH('a) - 1, 2 ^ LENGTH('a) - 1))"
proof (intro conjI impI)
  show "returned_uint (atomic_incr atomic_cas_u8 valuePtr oldValue d8 s8) valuePtr
     = (let m = (uint (mem s8 valuePtr) + uint d8) mod 2 ^ 8 in Some (m, m))"
    by (simp add: returned_uint_incr_serial[OF serial_cas_u8] Let_def)
  show "returned_uint (atomic_decr atomic_cas_u8 valuePtr oldValue d8 s8) valuePtr
     = (let m = (uint (mem s8 valuePtr) - uint d8) mod 2 ^ 8 in Some (m, m))"
    by (simp add: returned_uint_decr_serial[OF serial_cas_u8] Let_def)
  show "returned_uint (atomic_incr atomic_cas_u16 valuePtr oldValue d16 s16) valuePtr
     = (let m = (uint (mem s16 valuePtr) + uint d16) mod 2 ^ 16 in Some (m, m))"
    by (simp add: returned_uint_incr_serial[OF serial_cas_u16] Let_def)
  show "returned_uint (atomic_decr atomic_cas_u16 valuePtr oldValue d16 s16) valuePtr
     = (let m = (uint (mem s16 valuePtr) - uint d16) mod 2 ^ 16 in Some (m, m))"
    by (simp add: returned_uint_decr_serial[OF serial_cas_u16] Let_def)
  show "returned_uint (atomic_incr atomic_cas_u32 valuePtr oldValue d32 s32) valuePtr
     = (let m = (uint (mem s32 valuePtr) + uint d32) mod 2 ^ 32 in Some (m, m))"
    by (simp add: returned_uint_incr_serial[OF serial_cas_u32] Let_def)
  show "returned_uint (atomic_decr atomic_cas_u32 valuePtr oldValue d32 s32) valuePtr
     = (let m = (uint (mem s32 valuePtr) - uint d32) mod 2 ^ 32 in Some (m, m))"
    by (simp add: returned_uint_decr_serial[OF serial_cas_u32] Let_def)
  show "returned_uint (atomic_incr atomic_cas_m0 valuePtr oldValue d s) valuePtr
     = (let m = (uint (mem s valuePtr) + uint d) mod 2 ^ LENGTH('a) in Some (m, m))"
    by (simp add: returned_uint_incr_serial[OF serial_cas_m0] Let_def)
  show "returned_uint (atomic_decr atomic_cas_m0 valuePtr oldValue d s) valuePtr
     = (let m = (uint (mem s valuePtr) - uint d) mod 2 ^ LENGTH('a) in Some (m, m))"
    by (simp add: returned_uint_decr_serial[OF serial_cas_m0] Let_def)
next
  assume "mem t8 valuePtr = 0xFF"
  then show "returned (atomic_incr atomic_cas_u8 valuePtr oldValue 1 t8) valuePtr = Some (0x00, 0x00)"
    by (simp add: returned_incr_serial[OF serial_cas_u8])
next
  assume "mem t valuePtr = 0xFF"
  then show "returned (atomic_incr atomic_cas_m0 valuePtr oldValue 1 t) valuePtr = Some (0x00, 0x00)"
    by (simp add: returned_incr_serial[OF serial_cas_m0])
next
  assume "mem z8 valuePtr = 0"
  then show "returned (atomic_decr atomic_cas_u8 valuePtr oldValue 1 z8) valuePtr = Some (0xFF, 0xFF)"
    by (simp add: returned_decr_serial[OF serial_cas_u8])
next
  assume "mem z16 valuePtr = 0"
  then show "returned (atomic_decr atomic_cas_u16 valuePtr oldValue 1 z16) valuePtr = Some (0xFFFF, 0xFFFF)"
    by (simp add: returned_decr_serial[OF serial_cas_u16])
next
  assume "mem z32 valuePtr = 0"
  then show "returned (atomic_decr atomic_cas_u32 valuePtr oldValue 1 z32) valuePtr
        = Some (0xFFFFFFFF, 0xFFFFFFFF)"
    by (simp add: returned_decr_serial[OF serial_cas_u32])
next
  assume z: "mem z valuePtr = 0"
  have "(uint (0 :: 'a word) - uint (1 :: 'a word)) mod 2 ^ LENGTH('a) = 2 ^ LENGTH('a) - 1"
    using uint_max[where 'a = 'a] uint_word_ariths(2)[of "0 :: 'a word" 1] by simp
  with z show "returned_uint (atomic_decr atomic_cas_m0 valuePtr oldValue 1 z) valuePtr
        = Some (2 ^ LENGTH('a) - 1, 2 ^ LENGTH('a) - 1)"
    by (simp add: returned_uint_decr_serial[OF serial_cas_m0] Let_def)
qed

theorem atomic_incr_decr_modular_witness:
  "returned_uint (atomic_incr atomic_cas_u8 0 1 10 \<lparr>mem = (\<lambda>a. 250), monitor = None, primask = False\<rparr>) 0
     = Some (4, 4) \<and>
   returned_uint (atomic_decr atomic_cas_u8 0 1 10 \<lparr>mem = (\<lambda>a. 250), monitor = None, primask = False\<rparr>) 0
     = Some (240, 240) \<and>
   returned_uint (atomic_incr atomic_cas_u16 0 1 10 \<lparr>mem = (\<lambda>a. 65530), monitor = None, primask = False\<rparr>) 0
     = Some (4, 4) \<and>
   returned_uint (atomic_decr atomic_cas_u16 0 1 10 \<lparr>mem = (\<lambda>a. 65530), monitor = None, primask = False\<rparr>) 0
     = Some (65520, 65520) \<and>
   returned_uint (atomic_incr atomic_cas_u32 0 1 10 \<lparr>mem = (\<lambda>a. 4294967290), monitor = None, primask = False\<rparr>) 0
     = Some (4, 4) \<and>
   returned_uint (atomic_decr atomic_cas_u32 0 1 10 \<lparr>mem = (\<lambda>a. 4294967290), monitor = None, primask = False\<rparr>) 0
     = Some (4294967280, 4294967280) \<and>
   returned_uint (atomic_incr atomic_cas_m0 0 1 (5 :: 8 word) \<lparr>mem = (\<lambda>a. 3), monitor = None, primask = True\<rparr>) 0
     = Some (8, 8) \<and>
   returned_uint (atomic_decr atomic_cas_m0 0 1 (5 :: 8 word) \<lparr>mem = (\<lambda>a. 3), monitor = None, primask = True\<rparr>) 0
     = Some (254, 254) \<and>
   returned (atomic_incr atomic_cas_u8 0 1 1 \<lparr>mem = (\<lambda>a. 255), monitor = None, primask = False\<rparr>) 0
     = Some (0, 0) \<and>
   returned (atomic_incr atomic_cas_m0 0 1 (1 :: 8 word) \<lparr>mem = (\<lambda>a. 255), monitor = None, primask = False\<rparr>) 0
     = Some (0, 0) \<and>
   returned (atomic_decr atomic_cas_u8 0 1 1 \<lparr>mem = (\<lambda>a. 0), monitor = None, primask = False\<rparr>) 0
     = Some (255, 255) \<and>
   returned (atomic_decr atomic_cas_u16 0 1 1 \<lparr>mem = (\<lambda>a. 0), monitor = None, primask = False\<rparr>) 0
     = Some (65535, 65535) \<and>
   returned (atomic_decr atomic_cas_u32 0 1 1 \<lparr>mem = (\<lambda>a. 0), monitor = None, primask = False\<rparr>) 0
     = Some (4294967295, 4294967295) \<and>
   returned_uint (atomic_decr atomic_cas_m0 0 1 (1 :: 8 word) \<lparr>mem = (\<lambda>a. 0), monitor = None, primask = False\<rparr>) 0
     = Some (255, 255)"
  using atomic_incr_decr_modular
    [where valuePtr = 0 and oldValue = 1
       and ?s8.0 = "\<lparr>mem = (\<lambda>a. 250), monitor = None, primask = False\<rparr>" and ?d8.0 = 10
       and ?s16.0 = "\<lparr>mem = (\<lambda>a. 65530), monitor = None, primask = False\<rparr>" and ?d16.0 = 10
       and ?s32.0 = "\<lparr>mem = (\<lambda>a. 4294967290), monitor = None, primask = False\<rparr>" and ?d32.0 = 10
       and s = "\<lparr>mem = (\<lambda>a. 3), monitor = None, primask = True\<rparr>" and d = "5 :: 8 word"
       and ?t8.0 = "\<lparr>mem = (\<lambda>a. 255), monitor = None, primask = False\<rparr>"
       and t = "\<lparr>mem = (\<lambda>a. 255), monitor = None, primask = False\<rparr>"
       and ?z8.0 = "\<lparr>mem = (\<lambda>a. 0), monitor = None, primask = False\<rparr>"
       and ?z16.0 = "\<lparr>mem = (\<lambda>a. 0), monitor = None, primask = False\<rparr>"
       and ?z32.0 = "\<lparr>mem = (\<lambda>a. 0), monitor = None, primask = False\<rparr>"
       and z = "\<lparr>mem = (\<lambda>a. 0), monitor = None, primask = False\<rparr>"]
  by simp

section \<open>Interleaved streams\<close>

text \<open>The steps of a stream are the pieces of \<^verbatim>\<open>atomic_incr\<close>.\<close>

lemma stream_step_is_initial_read:
  assumes "st_pc t = Reading" and "0 < st_todo t"
  shows "atomic_incr cas p (st_slot t) (st_delta t) s =
           atomic_incr_loop cas p (st_slot t) (st_delta t) (snd (stream_step cas p t s))"
  using assms by (simp add: atomic_incr_def stream_step_def)

lemma stream_step_is_iteration:
  assumes "st_pc t = Trying" and "0 < st_todo t"
  shows "atomic_incr_loop cas p (st_slot t) (st_delta t) s =
           (if st_todo (fst (stream_step cas p t s)) < st_todo t
            then Some (mem s (st_slot t) + st_delta t, snd (stream_step cas p t s))
            else atomic_incr_loop cas p (st_slot t) (st_delta t) (snd (stream_step cas p t s)))"
proof (cases "fst (cas p (st_slot t) (mem s (st_slot t) + st_delta t) s)")
  case True
  with assms atomic_incr_loop_first[of cas p "st_slot t" s "st_delta t"] show ?thesis
    by (auto simp: stream_step_def Let_def split: prod.splits)
next
  case False
  with assms atomic_incr_loop_retry[of cas p "st_slot t" s "st_delta t"] show ?thesis
    by (auto simp: stream_step_def Let_def split: prod.splits)
qed






text \<open>
  Increments that arrive inside the window between the load-exclusive and the
  store-exclusive are not lost either. Each time the handler \<open>incr_irq\<close> preempts an
  attempt, the attempt fails, by the lost reservation or by the mismatch it then finds,
  and the loop goes round again; once the handler has run \<open>k\<close> times, the call returns
  with the cell holding its \<open>k\<close> increments and the call's own.
\<close>

lemma incr_irq_u8:
  assumes "c \<noteq> p" "mem s c \<noteq> 0"
  shows "incr_irq c atomic_cas_u8 p old2 e s =
           s\<lparr>mem := (mem s)(c := mem s c - 1, old2 := mem s p, p := mem s p + e), monitor := None\<rparr>"
  using assms
  by (simp add: incr_irq_def atomic_incr_serial[OF serial_cas_u8] atomic_cas_u8_match)

lemma incr_loop_under_incr_irq_u8:
  assumes ne: "c \<noteq> p" "c \<noteq> old1" "c \<noteq> old2" "old1 \<noteq> p" "old2 \<noteq> p" "old1 \<noteq> old2"
    and en: "\<not> primask s"
  shows "returned (atomic_incr_loop (atomic_cas_u8_preempted (incr_irq c atomic_cas_u8 p old2 e))
            p old1 d s) p
           = Some (mem s p + mem s c * e + d, mem s p + mem s c * e + d)"
  using en
proof (induction "unat (mem s c)" arbitrary: s rule: less_induct)
  case less
  let ?C = "atomic_cas_u8_preempted (incr_irq c atomic_cas_u8 p old2 e)"
  show ?case
  proof (cases "mem s c = 0")
    case True
    have c0: "?C p old1 w t = atomic_cas_u8 p old1 w t" if "mem t c = 0" for w t
      using that
      by (simp add: atomic_cas_u8_preempted_def atomic_cas_u8_def preempt_def incr_irq_def
          exclusive_defs Let_def)
    show ?thesis
    proof (cases "mem s p = mem s old1")
      case eq: True
      then have "?C p old1 (mem s old1 + d) s
          = (True, s\<lparr>mem := (mem s)(p := mem s old1 + d), monitor := None\<rparr>)"
        by (simp add: c0[OF True] atomic_cas_u8_match)
      with atomic_incr_loop_first[of ?C p old1 s d] True eq show ?thesis
        by (simp add: returned_def)
    next
      case neq: False
      let ?s1 = "s\<lparr>mem := (mem s)(old1 := mem s p), monitor := None\<rparr>"
      from neq have 1: "?C p old1 (mem s old1 + d) s = (False, ?s1)"
        by (simp add: c0[OF True] atomic_cas_u8_mismatch)
      from True ne have z1: "mem ?s1 c = 0" by simp
      from ne have o1: "mem ?s1 old1 = mem s p" and "mem ?s1 p = mem ?s1 old1" by simp_all
      then have 2: "?C p old1 (mem s p + d) ?s1
          = (True, ?s1\<lparr>mem := (mem ?s1)(p := mem s p + d), monitor := None\<rparr>)"
        by (simp only: c0[OF z1] atomic_cas_u8_match)
      have "atomic_incr_loop ?C p old1 d s = atomic_incr_loop ?C p old1 d ?s1"
        using atomic_incr_loop_retry[of ?C p old1 s d] 1 by simp
      also have "\<dots> = Some (mem s p + d, snd (?C p old1 (mem s p + d) ?s1))"
        using atomic_incr_loop_first[of ?C p old1 ?s1 d] 2 unfolding o1 by simp
      finally show ?thesis
        using True by (simp add: returned_def 2)
    qed
  next
    case False
    let ?h = "s\<lparr>mem := (mem s)(c := mem s c - 1, old2 := mem s p, p := mem s p + e), monitor := None\<rparr>"
    have h: "preempt (incr_irq c atomic_cas_u8 p old2 e) (s\<lparr>monitor := Some p\<rparr>) = ?h"
      using less.prems False ne(1) by (simp add: preempt_def incr_irq_u8)
    obtain s1 where 1: "?C p old1 (mem s old1 + d) s = (False, s1)"
      and m1: "mem s1 p = mem s p + e" "mem s1 c = mem s c - 1" and p1: "\<not> primask s1"
      using ne less.prems
      by (cases "mem s p = mem s old1")
        (simp_all add: atomic_cas_u8_preempted_eq h Let_def)
    from False have lt: "unat (mem s1 c) < unat (mem s c)"
      by (simp add: m1 unat_minus_one unat_gt_0)
    have "atomic_incr_loop ?C p old1 d s = atomic_incr_loop ?C p old1 d s1"
      using atomic_incr_loop_retry[of ?C p old1 s d] 1 by simp
    with less.hyps[OF lt p1] show ?thesis
      by (simp add: m1 algebra_simps)
  qed
qed

lemma incr_under_incr_irq_u8:
  assumes ne: "c \<noteq> p" "c \<noteq> old1" "c \<noteq> old2" "old1 \<noteq> p" "old2 \<noteq> p" "old1 \<noteq> old2"
    and en: "\<not> primask s"
  shows "returned (atomic_incr (atomic_cas_u8_preempted (incr_irq c atomic_cas_u8 p old2 e))
            p old1 d s) p
           = Some (mem s p + mem s c * e + d, mem s p + mem s c * e + d)"
  using incr_loop_under_incr_irq_u8[OF ne, of "s\<lparr>mem := (mem s)(old1 := mem s p)\<rparr>" e d] en ne
  by (simp add: atomic_incr_def)

lemma incr_irq_u16:
  assumes "c \<noteq> p" "mem s c \<noteq> 0"
  shows "incr_irq c atomic_cas_u16 p old2 e s =
           s\<lparr>mem := (mem s)(c := mem s c - 1, old2 := mem s p, p := mem s p + e), monitor := None\<rparr>"
  using assms
  by (simp add: incr_irq_def atomic_incr_serial[OF serial_cas_u16] atomic_cas_u16_match)

lemma incr_loop_under_incr_irq_u16:
  assumes ne: "c \<noteq> p" "c \<noteq> old1" "c \<noteq> old2" "old1 \<noteq> p" "old2 \<noteq> p" "old1 \<noteq> old2"
    and en: "\<not> primask s"
  shows "returned (atomic_incr_loop (atomic_cas_u16_preempted (incr_irq c atomic_cas_u16 p old2 e))
            p old1 d s) p
           = Some (mem s p + mem s c * e + d, mem s p + mem s c * e + d)"
  using en
proof (induction "unat (mem s c)" arbitrary: s rule: less_induct)
  case less
  let ?C = "atomic_cas_u16_preempted (incr_irq c atomic_cas_u16 p old2 e)"
  show ?case
  proof (cases "mem s c = 0")
    case True
    have c0: "?C p old1 w t = atomic_cas_u16 p old1 w t" if "mem t c = 0" for w t
      using that
      by (simp add: atomic_cas_u16_preempted_def atomic_cas_u16_def preempt_def incr_irq_def
          exclusive_defs Let_def)
    show ?thesis
    proof (cases "mem s p = mem s old1")
      case eq: True
      then have "?C p old1 (mem s old1 + d) s
          = (True, s\<lparr>mem := (mem s)(p := mem s old1 + d), monitor := None\<rparr>)"
        by (simp add: c0[OF True] atomic_cas_u16_match)
      with atomic_incr_loop_first[of ?C p old1 s d] True eq show ?thesis
        by (simp add: returned_def)
    next
      case neq: False
      let ?s1 = "s\<lparr>mem := (mem s)(old1 := mem s p), monitor := None\<rparr>"
      from neq have 1: "?C p old1 (mem s old1 + d) s = (False, ?s1)"
        by (simp add: c0[OF True] atomic_cas_u16_mismatch)
      from True ne have z1: "mem ?s1 c = 0" by simp
      from ne have o1: "mem ?s1 old1 = mem s p" and "mem ?s1 p = mem ?s1 old1" by simp_all
      then have 2: "?C p old1 (mem s p + d) ?s1
          = (True, ?s1\<lparr>mem := (mem ?s1)(p := mem s p + d), monitor := None\<rparr>)"
        by (simp only: c0[OF z1] atomic_cas_u16_match)
      have "atomic_incr_loop ?C p old1 d s = atomic_incr_loop ?C p old1 d ?s1"
        using atomic_incr_loop_retry[of ?C p old1 s d] 1 by simp
      also have "\<dots> = Some (mem s p + d, snd (?C p old1 (mem s p + d) ?s1))"
        using atomic_incr_loop_first[of ?C p old1 ?s1 d] 2 unfolding o1 by simp
      finally show ?thesis
        using True by (simp add: returned_def 2)
    qed
  next
    case False
    let ?h = "s\<lparr>mem := (mem s)(c := mem s c - 1, old2 := mem s p, p := mem s p + e), monitor := None\<rparr>"
    have h: "preempt (incr_irq c atomic_cas_u16 p old2 e) (s\<lparr>monitor := Some p\<rparr>) = ?h"
      using less.prems False ne(1) by (simp add: preempt_def incr_irq_u16)
    obtain s1 where 1: "?C p old1 (mem s old1 + d) s = (False, s1)"
      and m1: "mem s1 p = mem s p + e" "mem s1 c = mem s c - 1" and p1: "\<not> primask s1"
      using ne less.prems
      by (cases "mem s p = mem s old1")
        (simp_all add: atomic_cas_u16_preempted_eq h Let_def)
    from False have lt: "unat (mem s1 c) < unat (mem s c)"
      by (simp add: m1 unat_minus_one unat_gt_0)
    have "atomic_incr_loop ?C p old1 d s = atomic_incr_loop ?C p old1 d s1"
      using atomic_incr_loop_retry[of ?C p old1 s d] 1 by simp
    with less.hyps[OF lt p1] show ?thesis
      by (simp add: m1 algebra_simps)
  qed
qed

lemma incr_under_incr_irq_u16:
  assumes ne: "c \<noteq> p" "c \<noteq> old1" "c \<noteq> old2" "old1 \<noteq> p" "old2 \<noteq> p" "old1 \<noteq> old2"
    and en: "\<not> primask s"
  shows "returned (atomic_incr (atomic_cas_u16_preempted (incr_irq c atomic_cas_u16 p old2 e))
            p old1 d s) p
           = Some (mem s p + mem s c * e + d, mem s p + mem s c * e + d)"
  using incr_loop_under_incr_irq_u16[OF ne, of "s\<lparr>mem := (mem s)(old1 := mem s p)\<rparr>" e d] en ne
  by (simp add: atomic_incr_def)

lemma incr_irq_u32:
  assumes "c \<noteq> p" "mem s c \<noteq> 0"
  shows "incr_irq c atomic_cas_u32 p old2 e s =
           s\<lparr>mem := (mem s)(c := mem s c - 1, old2 := mem s p, p := mem s p + e), monitor := None\<rparr>"
  using assms
  by (simp add: incr_irq_def atomic_incr_serial[OF serial_cas_u32] atomic_cas_u32_match)

lemma incr_loop_under_incr_irq_u32:
  assumes ne: "c \<noteq> p" "c \<noteq> old1" "c \<noteq> old2" "old1 \<noteq> p" "old2 \<noteq> p" "old1 \<noteq> old2"
    and en: "\<not> primask s"
  shows "returned (atomic_incr_loop (atomic_cas_u32_preempted (incr_irq c atomic_cas_u32 p old2 e))
            p old1 d s) p
           = Some (mem s p + mem s c * e + d, mem s p + mem s c * e + d)"
  using en
proof (induction "unat (mem s c)" arbitrary: s rule: less_induct)
  case less
  let ?C = "atomic_cas_u32_preempted (incr_irq c atomic_cas_u32 p old2 e)"
  show ?case
  proof (cases "mem s c = 0")
    case True
    have c0: "?C p old1 w t = atomic_cas_u32 p old1 w t" if "mem t c = 0" for w t
      using that
      by (simp add: atomic_cas_u32_preempted_def atomic_cas_u32_def preempt_def incr_irq_def
          exclusive_defs Let_def)
    show ?thesis
    proof (cases "mem s p = mem s old1")
      case eq: True
      then have "?C p old1 (mem s old1 + d) s
          = (True, s\<lparr>mem := (mem s)(p := mem s old1 + d), monitor := None\<rparr>)"
        by (simp add: c0[OF True] atomic_cas_u32_match)
      with atomic_incr_loop_first[of ?C p old1 s d] True eq show ?thesis
        by (simp add: returned_def)
    next
      case neq: False
      let ?s1 = "s\<lparr>mem := (mem s)(old1 := mem s p), monitor := None\<rparr>"
      from neq have 1: "?C p old1 (mem s old1 + d) s = (False, ?s1)"
        by (simp add: c0[OF True] atomic_cas_u32_mismatch)
      from True ne have z1: "mem ?s1 c = 0" by simp
      from ne have o1: "mem ?s1 old1 = mem s p" and "mem ?s1 p = mem ?s1 old1" by simp_all
      then have 2: "?C p old1 (mem s p + d) ?s1
          = (True, ?s1\<lparr>mem := (mem ?s1)(p := mem s p + d), monitor := None\<rparr>)"
        by (simp only: c0[OF z1] atomic_cas_u32_match)
      have "atomic_incr_loop ?C p old1 d s = atomic_incr_loop ?C p old1 d ?s1"
        using atomic_incr_loop_retry[of ?C p old1 s d] 1 by simp
      also have "\<dots> = Some (mem s p + d, snd (?C p old1 (mem s p + d) ?s1))"
        using atomic_incr_loop_first[of ?C p old1 ?s1 d] 2 unfolding o1 by simp
      finally show ?thesis
        using True by (simp add: returned_def 2)
    qed
  next
    case False
    let ?h = "s\<lparr>mem := (mem s)(c := mem s c - 1, old2 := mem s p, p := mem s p + e), monitor := None\<rparr>"
    have h: "preempt (incr_irq c atomic_cas_u32 p old2 e) (s\<lparr>monitor := Some p\<rparr>) = ?h"
      using less.prems False ne(1) by (simp add: preempt_def incr_irq_u32)
    obtain s1 where 1: "?C p old1 (mem s old1 + d) s = (False, s1)"
      and m1: "mem s1 p = mem s p + e" "mem s1 c = mem s c - 1" and p1: "\<not> primask s1"
      using ne less.prems
      by (cases "mem s p = mem s old1")
        (simp_all add: atomic_cas_u32_preempted_eq h Let_def)
    from False have lt: "unat (mem s1 c) < unat (mem s c)"
      by (simp add: m1 unat_minus_one unat_gt_0)
    have "atomic_incr_loop ?C p old1 d s = atomic_incr_loop ?C p old1 d s1"
      using atomic_incr_loop_retry[of ?C p old1 s d] 1 by simp
    with less.hyps[OF lt p1] show ?thesis
      by (simp add: m1 algebra_simps)
  qed
qed

lemma incr_under_incr_irq_u32:
  assumes ne: "c \<noteq> p" "c \<noteq> old1" "c \<noteq> old2" "old1 \<noteq> p" "old2 \<noteq> p" "old1 \<noteq> old2"
    and en: "\<not> primask s"
  shows "returned (atomic_incr (atomic_cas_u32_preempted (incr_irq c atomic_cas_u32 p old2 e))
            p old1 d s) p
           = Some (mem s p + mem s c * e + d, mem s p + mem s c * e + d)"
  using incr_loop_under_incr_irq_u32[OF ne, of "s\<lparr>mem := (mem s)(old1 := mem s p)\<rparr>" e d] en ne
  by (simp add: atomic_incr_def)



section \<open>The model at work\<close>

text \<open>Direct evaluations of the definitions, independent of the theorems above.\<close>

lemma atomic_cas_u8_mismatch_example:
  "observe atomic_cas_u8 0 1 9 \<lparr>mem = (\<lambda>a. 3)(0 := 5), monitor = None, primask = False\<rparr>
     = (False, 5, 5)"
  by code_simp

lemma atomic_cas_m0_match_example:
  "observe atomic_cas_m0 0 1 (9 :: 16 word) \<lparr>mem = (\<lambda>a. 5), monitor = None, primask = False\<rparr>
     = (True, 9, 5)"
  by code_simp

lemma atomic_incr_wrap_example:
  "returned (atomic_incr atomic_cas_u8 0 1 10 \<lparr>mem = (\<lambda>a. 250), monitor = None, primask = False\<rparr>) 0
     = Some (4, 4)"
  by code_simp

lemma atomic_incr_times_example:
  "returned (atomic_incr_times 3 atomic_cas_u8 0 1 100
      \<lparr>mem = (\<lambda>a. 0), monitor = None, primask = False\<rparr>) 0 = Some ([100, 200, 44], 44)"
  by code_simp

lemma incr_then_decr_example:
  "returned (incr_then_decr atomic_cas_m0 0 1 (10 :: 8 word)
      \<lparr>mem = (\<lambda>a. 250), monitor = None, primask = True\<rparr>) 0 = Some (250, 250)"
  by code_simp

lemma atomic_incr_counted_retries_example:
  "iterations (atomic_incr_counted (atomic_cas_u8_preempted (countdown_irq 2)) 0 1 3
      \<lparr>mem = (\<lambda>a. 5)(2 := 2), monitor = None, primask = False\<rparr>) = Some 3 \<and>
   returned (atomic_incr (atomic_cas_u8_preempted (countdown_irq 2)) 0 1 3
      \<lparr>mem = (\<lambda>a. 5)(2 := 2), monitor = None, primask = False\<rparr>) 0 = Some (8, 8)"
  by code_simp

lemma atomic_incr_preempted_by_incr_example:
  "iterations (atomic_incr_counted (atomic_cas_u8_preempted (incr_irq 3 atomic_cas_u8 0 2 5)) 0 1 3
      \<lparr>mem = (\<lambda>a. 0)(3 := 2), monitor = None, primask = False\<rparr>) = Some 4 \<and>
   returned (atomic_incr (atomic_cas_u8_preempted (incr_irq 3 atomic_cas_u8 0 2 5)) 0 1 3
      \<lparr>mem = (\<lambda>a. 0)(3 := 2), monitor = None, primask = False\<rparr>) 0 = Some (13, 13)"
  by code_simp

end
